theory Spec2Isabelle
  imports Complex_Main
begin

section \<open>The raster grid used by the fault-scarp notebook\<close>

text \<open>
  The notebook \<^verbatim>\<open>fault_scarp/landlab-fault-scarp-unexpanded.ipynb\<close> builds
  \<^verbatim>\<open>mg = RasterModelGrid((25, 40), 10.0)\<close> and runs an explicit diffusion loop on it.
  The loop is the code of the repository; the grid is an object of the Landlab library,
  and its methods are modelled after what the notebook says of them and what the library
  does. The grid is modelled as far as the loop reads it: its shape, its spacing and the
  status of every node. Elevations and fluxes are NumPy arrays of floats; they are
  modelled as lists of reals, so rounding, infinities and NaN are not part of the model.
\<close>

text \<open>
  The node statuses that the notebooks of the repository use: a core node, an open
  (fixed-value) boundary node, which is what a perimeter node is by default, and a closed
  boundary node.
\<close>

datatype node_status = CORE | FIXED_VALUE_BOUNDARY | CLOSED_BOUNDARY

record RasterModelGrid =
  shape :: "nat \<times> nat"
  dx :: real
  status_at_node :: "node_status list"

datatype error = IndexError | ValueError

definition number_of_node_rows :: "RasterModelGrid \<Rightarrow> nat" where
  "number_of_node_rows mg = fst (shape mg)"

definition number_of_node_columns :: "RasterModelGrid \<Rightarrow> nat" where
  "number_of_node_columns mg = snd (shape mg)"

definition number_of_nodes :: "RasterModelGrid \<Rightarrow> nat" where
  "number_of_nodes mg = number_of_node_rows mg * number_of_node_columns mg"

text \<open>
  Nodes are numbered row by row from the lower left corner. A row of nodes has
  \<open>columns - 1\<close> horizontal links, and \<open>columns\<close> vertical links lead to the next row; links
  are numbered row by row, the horizontal links of a row before its vertical ones.
\<close>

definition links_per_row :: "RasterModelGrid \<Rightarrow> nat" where
  "links_per_row mg = 2 * number_of_node_columns mg - 1"

definition number_of_links :: "RasterModelGrid \<Rightarrow> nat" where
  "number_of_links mg =
     number_of_node_rows mg * (number_of_node_columns mg - 1)
     + (number_of_node_rows mg - 1) * number_of_node_columns mg"

definition horizontal_link :: "RasterModelGrid \<Rightarrow> nat \<Rightarrow> nat \<Rightarrow> nat" where
  "horizontal_link mg i j = i * links_per_row mg + j"

definition vertical_link :: "RasterModelGrid \<Rightarrow> nat \<Rightarrow> nat \<Rightarrow> nat" where
  "vertical_link mg i j = i * links_per_row mg + (number_of_node_columns mg - 1) + j"

text \<open>
  ``On a raster grid, link directions are always in the direction of increasing x
  (horizontal links) or increasing y (vertical links)'': the tail of a link is its left
  or lower node, the head its right or upper node.
\<close>

definition node_at_link_tail :: "RasterModelGrid \<Rightarrow> nat \<Rightarrow> nat" where
  "node_at_link_tail mg l =
     (let c = number_of_node_columns mg;
          i = l div links_per_row mg;
          k = l mod links_per_row mg
      in if k < c - 1 then i * c + k else i * c + (k - (c - 1)))"

definition node_at_link_head :: "RasterModelGrid \<Rightarrow> nat \<Rightarrow> nat" where
  "node_at_link_head mg l =
     (let c = number_of_node_columns mg;
          k = l mod links_per_row mg
      in if k < c - 1 then node_at_link_tail mg l + 1 else node_at_link_tail mg l + c)"

definition length_of_link :: "RasterModelGrid \<Rightarrow> nat \<Rightarrow> real" where
  "length_of_link mg l = dx mg"

text \<open>
  ``With a Landlab raster grid, all the perimeter nodes are boundary nodes.'' Every other
  node has a cell around it, a square of side \<open>dx\<close> whose four faces cross the four links
  of the node.
\<close>

definition node_has_cell :: "RasterModelGrid \<Rightarrow> nat \<Rightarrow> bool" where
  "node_has_cell mg n =
     (let r = number_of_node_rows mg; c = number_of_node_columns mg
      in n < r * c \<and> 0 < n div c \<and> n div c + 1 < r \<and> 0 < n mod c \<and> n mod c + 1 < c)"

definition width_of_face :: "RasterModelGrid \<Rightarrow> real" where
  "width_of_face mg = dx mg"

definition area_of_cell :: "RasterModelGrid \<Rightarrow> real" where
  "area_of_cell mg = dx mg * dx mg"

text \<open>The links of a node with a cell, in Landlab's order east, north, west, south.\<close>

definition links_at_node :: "RasterModelGrid \<Rightarrow> nat \<Rightarrow> nat list" where
  "links_at_node mg n =
     (let c = number_of_node_columns mg; i = n div c; j = n mod c
      in [horizontal_link mg i j, vertical_link mg i j,
          horizontal_link mg i (j - 1), vertical_link mg (i - 1) j])"

text \<open>\<open>-1\<close> for a link that leaves the node, \<open>1\<close> for a link that enters it.\<close>

definition link_dirs_at_node :: "real list" where
  "link_dirs_at_node = [-1, -1, 1, 1]"

text \<open>
  \<^verbatim>\<open>mg.core_nodes\<close> and \<^verbatim>\<open>mg.active_links\<close>. The notebook defines the active links as
  ``those not connected to a closed boundary, and not connecting two boundary nodes of
  any type''.
\<close>

definition core_nodes :: "RasterModelGrid \<Rightarrow> nat list" where
  "core_nodes mg =
     filter (\<lambda>n. status_at_node mg ! n = CORE) [0..<number_of_nodes mg]"

definition is_active_link :: "RasterModelGrid \<Rightarrow> nat \<Rightarrow> bool" where
  "is_active_link mg l =
     (let t = status_at_node mg ! node_at_link_tail mg l;
          h = status_at_node mg ! node_at_link_head mg l
      in t \<noteq> CLOSED_BOUNDARY \<and> h \<noteq> CLOSED_BOUNDARY \<and> (t = CORE \<or> h = CORE))"

definition active_links :: "RasterModelGrid \<Rightarrow> nat list" where
  "active_links mg = filter (is_active_link mg) [0..<number_of_links mg]"

text \<open>
  The constructor: perimeter nodes are open (fixed-value) boundaries by default, all
  other nodes are core nodes.
\<close>

definition raster_model_grid :: "nat \<times> nat \<Rightarrow> real \<Rightarrow> RasterModelGrid" where
  "raster_model_grid rc spacing =
     (let mg0 = \<lparr>shape = rc, dx = spacing, status_at_node = []\<rparr>
      in mg0\<lparr>status_at_node :=
           map (\<lambda>n. if node_has_cell mg0 n then CORE else FIXED_VALUE_BOUNDARY)
             [0..<fst rc * snd rc]\<rparr>)"

text \<open>
  \<^verbatim>\<open>mg.set_closed_boundaries_at_grid_edges(east, north, west, south)\<close>: the nodes of
  an edge named \<open>True\<close> become closed boundaries. The bottom and the top edge are whole
  rows of nodes, corners included; the left and the right edge are the first and the last
  node of every row between them, so a corner is closed only with its row.
\<close>

definition set_closed_boundaries_at_grid_edges ::
  "RasterModelGrid \<Rightarrow> bool \<Rightarrow> bool \<Rightarrow> bool \<Rightarrow> bool \<Rightarrow> RasterModelGrid" where
  "set_closed_boundaries_at_grid_edges mg right_is_closed top_is_closed left_is_closed
       bottom_is_closed =
     (let r = number_of_node_rows mg; c = number_of_node_columns mg
      in mg\<lparr>status_at_node :=
           map (\<lambda>n. if (bottom_is_closed \<and> n div c = 0)
                      \<or> (right_is_closed \<and> n mod c + 1 = c \<and> 0 < n div c \<and> n div c + 1 < r)
                      \<or> (top_is_closed \<and> n div c + 1 = r)
                      \<or> (left_is_closed \<and> n mod c = 0 \<and> 0 < n div c \<and> n div c + 1 < r)
                    then CLOSED_BOUNDARY else status_at_node mg ! n)
             [0..<length (status_at_node mg)]\<rparr>)"

text \<open>\<^verbatim>\<open>mg.add_zeros('node', ...)\<close> and \<^verbatim>\<open>mg.add_zeros('link', ...)\<close>.\<close>

definition add_zeros_node :: "RasterModelGrid \<Rightarrow> real list" where
  "add_zeros_node mg = replicate (number_of_nodes mg) 0"

definition add_zeros_link :: "RasterModelGrid \<Rightarrow> real list" where
  "add_zeros_link mg = replicate (number_of_links mg) 0"

section \<open>NumPy indexing\<close>

text \<open>
  \<^verbatim>\<open>a[idx]\<close> and \<^verbatim>\<open>a[idx] = v\<close> with an array of indices: an index out of range raises
  IndexError, a value array of another length than the index array raises ValueError.
\<close>

definition bind_result :: "error + 'a \<Rightarrow> ('a \<Rightarrow> error + 'b) \<Rightarrow> error + 'b" where
  "bind_result m f = (case m of Inl e \<Rightarrow> Inl e | Inr x \<Rightarrow> f x)"

definition getitem :: "'a list \<Rightarrow> nat list \<Rightarrow> error + 'a list" where
  "getitem a idx =
     (if list_all (\<lambda>i. i < length a) idx then Inr (map (\<lambda>i. a ! i) idx)
      else Inl IndexError)"

definition setitem :: "'a list \<Rightarrow> nat list \<Rightarrow> 'a list \<Rightarrow> error + 'a list" where
  "setitem a idx v =
     (if \<not> list_all (\<lambda>i. i < length a) idx then Inl IndexError
      else if length v \<noteq> length idx then Inl ValueError
      else Inr (fold (\<lambda>(i, x) b. b[i := x]) (zip idx v) a))"

section \<open>The grid's numerical operations\<close>

text \<open>
  \<^verbatim>\<open>mg.calc_grad_at_link(z)\<close>: the value at the head of each link minus the value at its
  tail, divided by the length of the link.
\<close>

definition calc_grad_at_link :: "RasterModelGrid \<Rightarrow> real list \<Rightarrow> error + real list" where
  "calc_grad_at_link mg z =
     (let ls = [0..<number_of_links mg] in
      bind_result (getitem z (map (node_at_link_head mg) ls)) (\<lambda>zh.
      bind_result (getitem z (map (node_at_link_tail mg) ls)) (\<lambda>zt.
      Inr (map (\<lambda>l. (zh ! l - zt ! l) / length_of_link mg l) ls))))"

text \<open>
  \<^verbatim>\<open>mg.calc_flux_div_at_node(qs)\<close>. The function belongs to the Landlab library and
  not to the repository, so it is modelled from the library's behaviour: for a node with
  a cell it takes the net outflux through the faces of the cell (the flux per unit width
  on each of the node's links times the width of the face, outflux positive) and divides
  it by the area of the cell; a node without a cell gets zero. On a raster grid this is
  the signed sum of the fluxes on the four links of the node divided by the spacing, the
  quotient that the notebook stores as \<^verbatim>\<open>dqsdx\<close> and for which it chooses the time
  step \<^verbatim>\<open>dt = 0.2 * mg.dx * mg.dx / D\<close>.
\<close>

definition calc_net_face_flux_at_cell :: "RasterModelGrid \<Rightarrow> real list \<Rightarrow> nat \<Rightarrow> real" where
  "calc_net_face_flux_at_cell mg unit_flux n =
     (\<Sum>(l, d) \<leftarrow> zip (links_at_node mg n) link_dirs_at_node.
         - (unit_flux ! l * width_of_face mg) * d)"

definition calc_flux_div_at_node :: "RasterModelGrid \<Rightarrow> real list \<Rightarrow> error + real list" where
  "calc_flux_div_at_node mg unit_flux =
     (if length unit_flux \<noteq> number_of_links mg then Inl ValueError
      else Inr (map (\<lambda>n. if node_has_cell mg n
                          then calc_net_face_flux_at_cell mg unit_flux n / area_of_cell mg
                          else 0)
                  [0..<number_of_nodes mg]))"

section \<open>The diffusion time loop\<close>

text \<open>
  One pass through the body of the loop. The elevation \<open>z\<close> and the flux \<open>qs\<close> are
  arrays that live outside the loop and are changed in place; the model takes both and
  returns both.
  \<^verbatim>\<open>
    g = mg.calc_grad_at_link(z)
    qs[mg.active_links] = -D * g[mg.active_links]
    dqsdx = mg.calc_flux_div_at_node(qs)
    dzdt = -dqsdx
    z[mg.core_nodes] += dzdt[mg.core_nodes] * dt
  \<close>
\<close>

definition diffusion_step ::
  "RasterModelGrid \<Rightarrow> real \<Rightarrow> real \<Rightarrow> real list \<times> real list \<Rightarrow> error + real list \<times> real list"
  where
  "diffusion_step mg D dt s =
     (let z = fst s; qs = snd s in
      bind_result (calc_grad_at_link mg z) (\<lambda>g.
      bind_result (getitem g (active_links mg)) (\<lambda>ga.
      bind_result (setitem qs (active_links mg) (map (\<lambda>x. - D * x) ga)) (\<lambda>qs'.
      bind_result (calc_flux_div_at_node mg qs') (\<lambda>dqsdx.
      let dzdt = map uminus dqsdx in
      bind_result (getitem z (core_nodes mg)) (\<lambda>zc.
      bind_result (getitem dzdt (core_nodes mg)) (\<lambda>dc.
      bind_result (setitem z (core_nodes mg) (map2 (\<lambda>a d. a + d * dt) zc dc)) (\<lambda>z'.
      Inr (z', qs')))))))))"

text \<open>\<^verbatim>\<open>for i in range(n):\<close> around the body.\<close>

fun time_loop ::
  "RasterModelGrid \<Rightarrow> real \<Rightarrow> real \<Rightarrow> nat \<Rightarrow> real list \<times> real list
     \<Rightarrow> error + real list \<times> real list" where
  "time_loop mg D dt 0 s = Inr s"
| "time_loop mg D dt (Suc n) s = bind_result (diffusion_step mg D dt s) (time_loop mg D dt n)"

section \<open>The grid of the notebook\<close>

text \<open>
  \<^verbatim>\<open>mg = RasterModelGrid((25, 40), 10.0)\<close> followed by
  \<^verbatim>\<open>mg.set_closed_boundaries_at_grid_edges(True, False, True, False)\<close>.
\<close>

definition fault_scarp_grid :: RasterModelGrid where
  "fault_scarp_grid =
     set_closed_boundaries_at_grid_edges (raster_model_grid (25, 40) 10) True False True False"

section \<open>The end-to-end scenario of the specification\<close>

text \<open>
  A 5 x 5 grid of spacing 1 whose four edges are closed, with one node raised to 10 on
  an otherwise flat field of zero elevation, and a flux array fresh from
  \<^verbatim>\<open>add_zeros\<close>.
\<close>

definition scenario_grid :: RasterModelGrid where
  "scenario_grid =
     set_closed_boundaries_at_grid_edges (raster_model_grid (5, 5) 1) True True True True"

definition scenario_z :: "nat \<Rightarrow> real list" where
  "scenario_z p = (add_zeros_node scenario_grid)[p := 10]"

definition scenario_qs :: "real list" where
  "scenario_qs = add_zeros_link scenario_grid"

section \<open>Notions used to state the properties\<close>

text \<open>
  A grid as the library keeps it: one status per node, a positive spacing, and no core
  node on the perimeter (``all the perimeter nodes are boundary nodes'').
\<close>

definition wf_grid :: "RasterModelGrid \<Rightarrow> bool" where
  "wf_grid mg =
     (length (status_at_node mg) = number_of_nodes mg \<and> 0 < dx mg \<and>
      list_all (\<lambda>n. node_has_cell mg n \<or> status_at_node mg ! n \<noteq> CORE)
        [0..<number_of_nodes mg])"

text \<open>
  The flux array is created by \<^verbatim>\<open>add_zeros\<close> and the loop writes its active links
  only, so it is zero on every inactive link whenever the body of the loop starts.
\<close>

definition zero_at_inactive_links :: "RasterModelGrid \<Rightarrow> real list \<Rightarrow> bool" where
  "zero_at_inactive_links mg qs =
     list_all (\<lambda>l. is_active_link mg l \<or> qs ! l = 0) [0..<number_of_links mg]"

text \<open>
  The nodes at the far ends of the four links of a node with a cell, in the order of
  \<open>links_at_node\<close> (east, north, west, south), and those of them that lie across an
  active link.
\<close>

definition adjacent_nodes_at_node :: "RasterModelGrid \<Rightarrow> nat \<Rightarrow> nat list" where
  "adjacent_nodes_at_node mg n =
     (let c = number_of_node_columns mg in [n + 1, n + c, n - 1, n - c])"

definition active_neighbors :: "RasterModelGrid \<Rightarrow> nat \<Rightarrow> nat list" where
  "active_neighbors mg n =
     map snd (filter (\<lambda>(l, m). is_active_link mg l)
                (zip (links_at_node mg n) (adjacent_nodes_at_node mg n)))"

text \<open>
  The result of one pass in closed form: the flux on a link, the flux array, the
  divergence at a node and the elevation array after the pass. Lemma
  \<open>diffusion_step_ok\<close> below proves that the body of the loop returns exactly these.
\<close>

definition unit_flux_at_link :: "RasterModelGrid \<Rightarrow> real \<Rightarrow> real list \<Rightarrow> nat \<Rightarrow> real" where
  "unit_flux_at_link mg D z l =
     - D * ((z ! node_at_link_head mg l - z ! node_at_link_tail mg l) / length_of_link mg l)"

definition flux_after :: "RasterModelGrid \<Rightarrow> real \<Rightarrow> real list \<Rightarrow> real list \<Rightarrow> real list" where
  "flux_after mg D z qs =
     map (\<lambda>l. if is_active_link mg l then unit_flux_at_link mg D z l else qs ! l)
       [0..<number_of_links mg]"

definition flux_div_after :: "RasterModelGrid \<Rightarrow> real \<Rightarrow> real list \<Rightarrow> real list \<Rightarrow> nat \<Rightarrow> real" where
  "flux_div_after mg D z qs n =
     (if node_has_cell mg n
      then calc_net_face_flux_at_cell mg (flux_after mg D z qs) n / area_of_cell mg else 0)"

definition elevation_after ::
  "RasterModelGrid \<Rightarrow> real \<Rightarrow> real \<Rightarrow> real list \<Rightarrow> real list \<Rightarrow> real list" where
  "elevation_after mg D dt z qs =
     map (\<lambda>n. if status_at_node mg ! n = CORE
               then z ! n + (- flux_div_after mg D z qs n) * dt else z ! n)
       [0..<number_of_nodes mg]"

text \<open>
  The quantity the specification names as the divergence: ``the signed sum of flux on
  incident edges, oriented consistently (outflux positive)''.
\<close>

definition signed_flux_sum :: "RasterModelGrid \<Rightarrow> real list \<Rightarrow> nat \<Rightarrow> real" where
  "signed_flux_sum mg q n =
     (\<Sum>(l, d) \<leftarrow> zip (links_at_node mg n) link_dirs_at_node. - d * q ! l)"

text \<open>A 3 x 3 grid of spacing 10 as the constructor leaves it: one core node, open edges.\<close>

definition open_grid_3x3 :: RasterModelGrid where
  "open_grid_3x3 = raster_model_grid (3, 3) 10"

text \<open>The active links among the four links of a node.\<close>

definition active_links_at_node :: "RasterModelGrid \<Rightarrow> nat \<Rightarrow> nat list" where
  "active_links_at_node mg n = filter (is_active_link mg) (links_at_node mg n)"

text \<open>
  A field on the scenario grid with a single peak at the centre node, surrounded by four
  lower nodes that stand high above the corners of the core.
\<close>

definition ridge_z :: "real list" where
  "ridge_z = [0, 0, 0, 0, 0,
              0, 0, 9, 0, 0,
              0, 9, 10, 9, 0,
              0, 0, 9, 0, 0,
              0, 0, 0, 0, 0]"

text \<open>
  No boundary node is open: every node is a core node or a closed boundary.
\<close>

definition all_boundaries_closed :: "RasterModelGrid \<Rightarrow> bool" where
  "all_boundaries_closed mg =
     list_all (\<lambda>n. status_at_node mg ! n \<noteq> FIXED_VALUE_BOUNDARY) [0..<number_of_nodes mg]"

text \<open>A flat field of zero elevation with the single node \<open>p\<close> set to \<open>v\<close>.\<close>

definition flat_field_with_bump :: "RasterModelGrid \<Rightarrow> nat \<Rightarrow> real \<Rightarrow> real list" where
  "flat_field_with_bump mg p v = (add_zeros_node mg)[p := v]"

text \<open>
  A field on the scenario grid that is symmetric about the centre node: \<open>a\<close> at the
  centre, \<open>b\<close> at its four neighbours, \<open>c\<close> at the four corners of the core, zero on
  the closed edges.
\<close>

definition symmetric_field :: "real \<Rightarrow> real \<Rightarrow> real \<Rightarrow> real list" where
  "symmetric_field a b c =
     [0, 0, 0, 0, 0,
      0, c, b, c, 0,
      0, b, a, b, 0,
      0, c, b, c, 0,
      0, 0, 0, 0, 0]"

text \<open>
  A 3 x 4 grid of spacing 1 whose four edges are closed: two core nodes, 5 and 6, joined
  by one active link.
\<close>

definition closed_grid_3x4 :: RasterModelGrid where
  "closed_grid_3x4 =
     set_closed_boundaries_at_grid_edges (raster_model_grid (3, 4) 1) True True True True"

section \<open>Indexing lemmas\<close>

lemma fold_update_length:
  "length (fold (\<lambda>(i, x) b. b[i := x]) ps a) = length a"
  by (induction ps arbitrary: a) (auto split: prod.splits)

lemma fold_update_nth:
  "k < length a \<Longrightarrow>
   fold (\<lambda>(i, x) b. b[i := x]) (map (\<lambda>i. (i, f i)) idx) a ! k =
     (if k \<in> set idx then f k else a ! k)"
proof (induction idx arbitrary: a)
  case Nil
  then show ?case by simp
next
  case (Cons i idx)
  have "k < length (a[i := f i])" using Cons.prems by simp
  from Cons.IH[OF this] show ?case
    by (cases "k = i") (use Cons.prems in auto)
qed

lemma zip_map_same: "zip idx (map f idx) = map (\<lambda>i. (i, f i)) idx"
  by (induction idx) auto

lemma setitem_map:
  assumes "list_all (\<lambda>i. i < length a) idx"
  shows "setitem a idx (map f idx) =
           Inr (map (\<lambda>k. if k \<in> set idx then f k else a ! k) [0..<length a])"
proof -
  have "fold (\<lambda>(i, x) b. b[i := x]) (map (\<lambda>i. (i, f i)) idx) a
          = map (\<lambda>k. if k \<in> set idx then f k else a ! k) [0..<length a]"
    by (rule nth_equalityI) (simp_all add: fold_update_length fold_update_nth)
  then show ?thesis using assms by (simp add: setitem_def zip_map_same)
qed

lemma getitem_ok:
  "list_all (\<lambda>i. i < length a) idx \<Longrightarrow> getitem a idx = Inr (map (\<lambda>i. a ! i) idx)"
  by (simp add: getitem_def)

section \<open>Links and their end nodes\<close>

lemma link_index_bounds:
  fixes l r c :: nat
  assumes "l < r * (c - 1) + (r - 1) * c"
  shows "0 < c" and "0 < r"
    and "l div (2 * c - 1) < r"
    and "l mod (2 * c - 1) < 2 * c - 1"
    and "l div (2 * c - 1) + 1 = r \<Longrightarrow> l mod (2 * c - 1) < c - 1"
proof -
  show c: "0 < c" using assms by (cases c) auto
  show r: "0 < r" using assms by (cases r) auto
  obtain r' where r': "r = Suc r'" using r by (cases r) auto
  obtain c' where c': "c = Suc c'" using c by (cases c) auto
  define P where "P = 2 * c' + 1"
  have P: "2 * c - 1 = P" "0 < P" "c' < P" by (simp_all add: P_def c')
  have lt: "l < r' * P + c'" using assms by (simp add: r' c' P_def algebra_simps)
  have "l div P \<le> (c' + r' * P) div P"
    using lt by (intro div_le_mono) simp
  also have "\<dots> = r'" using P by simp
  finally have d: "l div P \<le> r'" .
  then show "l div (2 * c - 1) < r" unfolding P(1) r' by simp
  show "l mod (2 * c - 1) < 2 * c - 1" unfolding P(1) using P(2) by simp
  assume "l div (2 * c - 1) + 1 = r"
  then have "l div P = r'" unfolding P(1) r' by simp
  then have "l = r' * P + l mod P"
    by (metis div_mult_mod_eq)
  then have "l mod P < c'" using lt by linarith
  then show "l mod (2 * c - 1) < c - 1" unfolding P(1) by (simp add: c')
qed

lemma row_col_lt:
  fixes i j r c :: nat
  assumes "i < r" "j < c"
  shows "i * c + j < r * c"
proof -
  have "i * c + j < Suc i * c" using assms(2) by simp
  also have "\<dots> \<le> r * c" using assms(1) by (intro mult_le_mono1) simp
  finally show ?thesis .
qed

lemma node_at_link_in_range:
  assumes "l < number_of_links mg"
  shows "node_at_link_tail mg l < number_of_nodes mg"
    and "node_at_link_head mg l < number_of_nodes mg"
proof -
  define r where "r = number_of_node_rows mg"
  define c where "c = number_of_node_columns mg"
  define i where "i = l div (2 * c - 1)"
  define k where "k = l mod (2 * c - 1)"
  have l: "l < r * (c - 1) + (r - 1) * c"
    using assms by (simp add: number_of_links_def r_def c_def)
  note b = link_index_bounds[OF l, folded i_def k_def]
  have tl: "node_at_link_tail mg l = (if k < c - 1 then i * c + k else i * c + (k - (c - 1)))"
    by (simp add: node_at_link_tail_def links_per_row_def Let_def c_def i_def k_def)
  have hd: "node_at_link_head mg l =
      (if k < c - 1 then node_at_link_tail mg l + 1 else node_at_link_tail mg l + c)"
    by (simp add: node_at_link_head_def links_per_row_def Let_def c_def i_def k_def)
  have N: "number_of_nodes mg = r * c" by (simp add: number_of_nodes_def r_def c_def)
  show "node_at_link_tail mg l < number_of_nodes mg"
  proof (cases "k < c - 1")
    case True
    then have "i * c + k < r * c" using b by (intro row_col_lt) auto
    then show ?thesis unfolding N tl using True by simp
  next
    case False
    have "k - (c - 1) < c" using b(4) False by simp
    with b(3) have "i * c + (k - (c - 1)) < r * c" by (rule row_col_lt)
    then show ?thesis unfolding N tl using False by simp
  qed
  show "node_at_link_head mg l < number_of_nodes mg"
  proof (cases "k < c - 1")
    case True
    then have "i * c + (k + 1) < r * c" using b by (intro row_col_lt) auto
    then show ?thesis unfolding N hd tl using True by simp
  next
    case False
    then have "i + 1 \<noteq> r" using b(5) by auto
    then have "Suc i < r" using b(3) by simp
    moreover have "k - (c - 1) < c" using b(4) False by simp
    ultimately have "Suc i * c + (k - (c - 1)) < r * c" by (rule row_col_lt)
    then show ?thesis unfolding N hd tl using False by (simp add: algebra_simps)
  qed
qed


lemma cell_links:
  assumes "node_has_cell mg n"
  defines "c \<equiv> number_of_node_columns mg"
  defines "i \<equiv> n div c" and "j \<equiv> n mod c"
  shows "node_at_link_tail mg (horizontal_link mg i j) = n"
    and "node_at_link_head mg (horizontal_link mg i j) = n + 1"
    and "node_at_link_tail mg (vertical_link mg i j) = n"
    and "node_at_link_head mg (vertical_link mg i j) = n + c"
    and "node_at_link_tail mg (horizontal_link mg i (j - 1)) = n - 1"
    and "node_at_link_head mg (horizontal_link mg i (j - 1)) = n"
    and "node_at_link_tail mg (vertical_link mg (i - 1) j) = n - c"
    and "node_at_link_head mg (vertical_link mg (i - 1) j) = n"
    and "horizontal_link mg i j < number_of_links mg"
    and "vertical_link mg i j < number_of_links mg"
    and "horizontal_link mg i (j - 1) < number_of_links mg"
    and "vertical_link mg (i - 1) j < number_of_links mg"
proof -
  define r where "r = number_of_node_rows mg"
  have h: "0 < i" "i + 1 < r" "0 < j" "j + 1 < c"
    using assms(1) by (simp_all add: node_has_cell_def Let_def c_def i_def j_def r_def)
  obtain c' where c': "c = Suc c'" using h(4) by (cases c) auto
  obtain i' where i': "i = Suc i'" using h(1) by (cases i) auto
  obtain j' where j': "j = Suc j'" using h(3) by (cases j) auto
  obtain r' where r': "r = Suc r'" using h(2) by (cases r) auto
  define P where "P = c' + c"
  have n: "n = i * c + j" by (simp add: i_def j_def)
  have cols: "number_of_node_columns mg = c" "c - 1 = c'" "c - Suc 0 = c'"
    using c' unfolding c_def by simp_all
  have lpr: "links_per_row mg = P"
    using c' unfolding links_per_row_def P_def c_def by simp
  have P: "j < P" "c' + j < P" "j' < P" "j < c'" "j' < c'" "\<not> c' + j < c'"
    using h by (simp_all add: P_def c' j')
  have dm: "\<And>a k. k < P \<Longrightarrow> (a * P + k) div P = a \<and> (a * P + k) mod P = k"
    by simp
  have lE: "horizontal_link mg i j = i * P + j" by (simp add: horizontal_link_def lpr)
  have lW: "horizontal_link mg i (j - 1) = i * P + j'" by (simp add: horizontal_link_def lpr j')
  have lN: "vertical_link mg i j = i * P + (c' + j)" by (simp add: vertical_link_def lpr cols)
  have lS: "vertical_link mg (i - 1) j = i' * P + (c' + j)" by (simp add: vertical_link_def lpr cols i')
  note tl = node_at_link_tail_def Let_def lpr cols
  show tE: "node_at_link_tail mg (horizontal_link mg i j) = n"
    unfolding lE tl using dm[OF P(1)] P by (simp add: n)
  show tN: "node_at_link_tail mg (vertical_link mg i j) = n"
    unfolding lN tl using dm[OF P(2)] P by (simp add: n)
  show tW: "node_at_link_tail mg (horizontal_link mg i (j - 1)) = n - 1"
    unfolding lW tl using dm[OF P(3)] P by (simp add: n j')
  show tS: "node_at_link_tail mg (vertical_link mg (i - 1) j) = n - c"
    unfolding lS tl using dm[OF P(2)] P by (simp add: n i')
  note hd = node_at_link_head_def Let_def lpr cols
  show "node_at_link_head mg (horizontal_link mg i j) = n + 1"
    using tE unfolding lE hd using dm[OF P(1)] P by simp
  show "node_at_link_head mg (vertical_link mg i j) = n + c"
    using tN unfolding lN hd using dm[OF P(2)] P by simp
  show "node_at_link_head mg (horizontal_link mg i (j - 1)) = n"
    using tW unfolding lW hd using dm[OF P(3)] P by (simp add: n j')
  show "node_at_link_head mg (vertical_link mg (i - 1) j) = n"
    using tS unfolding lS hd using dm[OF P(2)] P by (simp add: n i')
  have L: "number_of_links mg = r' * P + c'"
    by (simp add: number_of_links_def r_def[symmetric] cols r' P_def) (simp add: c' algebra_simps)
  have up: "Suc i * P \<le> r' * P" using h(2) by (intro mult_le_mono1) (simp add: r')
  then have up': "i * P + P \<le> r' * P" by simp
  show "horizontal_link mg i j < number_of_links mg"
    unfolding lE L using up' P by linarith
  show "vertical_link mg i j < number_of_links mg"
    unfolding lN L using up' P by linarith
  show "horizontal_link mg i (j - 1) < number_of_links mg"
    unfolding lW L using up' P by linarith
  have "i' * P \<le> i * P" by (simp add: i')
  then show "vertical_link mg (i - 1) j < number_of_links mg"
    unfolding lS L using up' P by linarith
qed

lemma list_all_filter_upt: "list_all (\<lambda>i. i < n) (filter P [0..<n])"
  by (simp add: list_all_iff)

lemma calc_grad_at_link_ok:
  assumes "length z = number_of_nodes mg"
  shows "calc_grad_at_link mg z =
     Inr (map (\<lambda>l. (z ! node_at_link_head mg l - z ! node_at_link_tail mg l)
                     / length_of_link mg l) [0..<number_of_links mg])"
proof -
  have "list_all (\<lambda>i. i < length z) (map (node_at_link_head mg) [0..<number_of_links mg])"
       "list_all (\<lambda>i. i < length z) (map (node_at_link_tail mg) [0..<number_of_links mg])"
    using assms by (simp_all add: list_all_iff node_at_link_in_range)
  then show ?thesis
    by (simp add: calc_grad_at_link_def getitem_ok bind_result_def Let_def)
qed

section \<open>One pass through the loop never raises\<close>

lemma map2_map_map: "map2 h (map f xs) (map g xs) = map (\<lambda>x. h (f x) (g x)) xs"
  by (induction xs) auto

lemma diffusion_step_ok:
  assumes z: "length z = number_of_nodes mg" and qs: "length qs = number_of_links mg"
  shows "diffusion_step mg D dt (z, qs) =
           Inr (elevation_after mg D dt z qs, flux_after mg D z qs)"
proof -
  let ?L = "number_of_links mg" and ?N = "number_of_nodes mg"
  let ?g = "map (\<lambda>l. (z ! node_at_link_head mg l - z ! node_at_link_tail mg l)
                     / length_of_link mg l) [0..<?L]"
  have g: "calc_grad_at_link mg z = Inr ?g" by (rule calc_grad_at_link_ok[OF z])
  have ga: "getitem ?g (active_links mg) = Inr (map (\<lambda>i. ?g ! i) (active_links mg))"
    by (rule getitem_ok) (simp add: active_links_def list_all_iff)
  have set_qs: "setitem qs (active_links mg) (map (\<lambda>x. - D * x) (map (\<lambda>i. ?g ! i) (active_links mg)))
      = Inr (flux_after mg D z qs)"
  proof -
    have "setitem qs (active_links mg) (map (\<lambda>l. - D * ?g ! l) (active_links mg))
      = Inr (map (\<lambda>k. if k \<in> set (active_links mg) then - D * ?g ! k else qs ! k) [0..<length qs])"
      by (rule setitem_map) (simp add: active_links_def list_all_iff qs)
    also have "map (\<lambda>k. if k \<in> set (active_links mg) then - D * ?g ! k else qs ! k) [0..<length qs]
       = flux_after mg D z qs"
      by (simp add: flux_after_def qs active_links_def unit_flux_at_link_def)
    finally show ?thesis by (simp add: comp_def)
  qed
  let ?q = "flux_after mg D z qs"
  let ?d = "map (\<lambda>n. flux_div_after mg D z qs n) [0..<?N]"
  have d: "calc_flux_div_at_node mg ?q = Inr ?d"
    by (simp add: calc_flux_div_at_node_def flux_after_def flux_div_after_def)
  have zc: "getitem z (core_nodes mg) = Inr (map (\<lambda>i. z ! i) (core_nodes mg))"
    by (rule getitem_ok) (simp add: core_nodes_def list_all_iff z)
  have dc: "getitem (map uminus ?d) (core_nodes mg)
      = Inr (map (\<lambda>i. map uminus ?d ! i) (core_nodes mg))"
    by (rule getitem_ok) (simp add: core_nodes_def list_all_iff)
  have set_z: "setitem z (core_nodes mg)
       (map2 (\<lambda>a d. a + d * dt) (map (\<lambda>i. z ! i) (core_nodes mg))
          (map (\<lambda>i. map uminus ?d ! i) (core_nodes mg)))
      = Inr (elevation_after mg D dt z qs)"
  proof -
    have "setitem z (core_nodes mg) (map (\<lambda>n. z ! n + map uminus ?d ! n * dt) (core_nodes mg))
      = Inr (map (\<lambda>k. if k \<in> set (core_nodes mg) then z ! k + map uminus ?d ! k * dt else z ! k)
               [0..<length z])"
      by (rule setitem_map) (simp add: core_nodes_def list_all_iff z)
    also have "map (\<lambda>k. if k \<in> set (core_nodes mg) then z ! k + map uminus ?d ! k * dt else z ! k)
               [0..<length z] = elevation_after mg D dt z qs"
      by (simp add: elevation_after_def z core_nodes_def)
    finally show ?thesis by (simp add: map2_map_map)
  qed
  show ?thesis
    unfolding diffusion_step_def Let_def fst_conv snd_conv
    by (simp only: g ga set_qs d zc dc set_z bind_result_def sum.case)
qed

lemma length_flux_after: "length (flux_after mg D z qs) = number_of_links mg"
  by (simp add: flux_after_def)

lemma length_elevation_after: "length (elevation_after mg D dt z qs) = number_of_nodes mg"
  by (simp add: elevation_after_def)

lemma elevation_after_not_core:
  "n < number_of_nodes mg \<Longrightarrow> status_at_node mg ! n \<noteq> CORE \<Longrightarrow>
     elevation_after mg D dt z qs ! n = z ! n"
  by (simp add: elevation_after_def)

text \<open>
  C8. The body of the loop has no error branch: for an elevation array with one entry
  per node and a flux array with one entry per link, and for every diffusivity and every
  time step, positive or not, one pass returns an elevation array and a flux array of the
  same lengths.
\<close>

theorem diffusion_step_never_raises:
  assumes "length z = number_of_nodes mg" and "length qs = number_of_links mg"
  shows "\<exists>z' qs'. diffusion_step mg D dt (z, qs) = Inr (z', qs')
           \<and> length z' = length z \<and> length qs' = length qs"
  using assms
  by (simp add: diffusion_step_ok length_flux_after length_elevation_after)

theorem diffusion_step_never_raises_witness:
  "length (scenario_z 12) = number_of_nodes scenario_grid
   \<and> length scenario_qs = number_of_links scenario_grid
   \<and> (\<exists>z' qs'. diffusion_step scenario_grid (- 1) 0 (scenario_z 12, scenario_qs) = Inr (z', qs')
           \<and> length z' = 25 \<and> length qs' = 40)"
proof -
  have z: "length (scenario_z 12) = number_of_nodes scenario_grid" by code_simp
  have q: "length scenario_qs = number_of_links scenario_grid" by code_simp
  have "length (scenario_z 12) = 25" "length scenario_qs = 40" by code_simp+
  with diffusion_step_never_raises[OF z q, of "- 1" 0] z q show ?thesis by simp
qed

section \<open>The update of a core node\<close>

lemma flux_after_nth:
  assumes "zero_at_inactive_links mg qs" and "l < number_of_links mg"
  shows "flux_after mg D z qs ! l =
           (if is_active_link mg l then unit_flux_at_link mg D z l else 0)"
  using assms by (auto simp: flux_after_def zero_at_inactive_links_def list_all_iff)

lemma core_node_has_cell:
  assumes "wf_grid mg" and "n < number_of_nodes mg" and "status_at_node mg ! n = CORE"
  shows "node_has_cell mg n"
  using assms by (auto simp: wf_grid_def list_all_iff)

lemma sum_list_active_neighbors:
  "(\<Sum>m\<leftarrow>active_neighbors mg n. f m) =
     (\<Sum>(l, m)\<leftarrow>zip (links_at_node mg n) (adjacent_nodes_at_node mg n).
        if is_active_link mg l then f m else 0)"
proof -
  have "\<And>ps. (\<Sum>m\<leftarrow>map snd (filter (\<lambda>(l, m). is_active_link mg l) ps). f m)
          = (\<Sum>(l, m)\<leftarrow>ps. if is_active_link mg l then f m else 0)"
    subgoal for ps by (induction ps) auto
    done
  then show ?thesis by (simp add: active_neighbors_def)
qed

lemma elevation_after_core:
  assumes wf: "wf_grid mg" and q0: "zero_at_inactive_links mg qs"
    and n: "n < number_of_nodes mg" and core: "status_at_node mg ! n = CORE"
  shows "elevation_after mg D dt z qs ! n =
           z ! n + D * dt / (dx mg * dx mg) * (\<Sum>m\<leftarrow>active_neighbors mg n. z ! m - z ! n)"
proof -
  have cell: "node_has_cell mg n" using wf n core by (rule core_node_has_cell)
  note cl = cell_links[OF cell]
  define c where "c = number_of_node_columns mg"
  define lE where "lE = horizontal_link mg (n div c) (n mod c)"
  define lN where "lN = vertical_link mg (n div c) (n mod c)"
  define lW where "lW = horizontal_link mg (n div c) (n mod c - 1)"
  define lS where "lS = vertical_link mg (n div c - 1) (n mod c)"
  define eE where "eE = (if is_active_link mg lE then z ! (n + 1) - z ! n else 0)"
  define eN where "eN = (if is_active_link mg lN then z ! (n + c) - z ! n else 0)"
  define eW where "eW = (if is_active_link mg lW then z ! (n - 1) - z ! n else 0)"
  define eS where "eS = (if is_active_link mg lS then z ! (n - c) - z ! n else 0)"
  let ?q = "flux_after mg D z qs"
  have dx: "dx mg \<noteq> 0" using wf by (simp add: wf_grid_def)
  have links: "links_at_node mg n = [lE, lN, lW, lS]"
    by (simp add: links_at_node_def Let_def lE_def lN_def lW_def lS_def c_def)
  have adj: "adjacent_nodes_at_node mg n = [n + 1, n + c, n - 1, n - c]"
    by (simp add: adjacent_nodes_at_node_def Let_def c_def)
  have qE: "?q ! lE = - D * (eE / dx mg)"
    using cl(1,2,9) by (simp add: flux_after_nth[OF q0] unit_flux_at_link_def length_of_link_def
        lE_def c_def eE_def)
  have qN: "?q ! lN = - D * (eN / dx mg)"
    using cl(3,4,10) by (simp add: flux_after_nth[OF q0] unit_flux_at_link_def length_of_link_def
        lN_def c_def eN_def)
  have qW: "?q ! lW = D * (eW / dx mg)"
    using cl(5,6,11) by (simp add: flux_after_nth[OF q0] unit_flux_at_link_def length_of_link_def
        lW_def c_def eW_def field_simps)
  have qS: "?q ! lS = D * (eS / dx mg)"
    using cl(7,8,12) by (simp add: flux_after_nth[OF q0] unit_flux_at_link_def length_of_link_def
        lS_def c_def eS_def field_simps)
  have net: "calc_net_face_flux_at_cell mg ?q n = - D * (eE + eN + eW + eS)"
    using dx by (simp add: calc_net_face_flux_at_cell_def links link_dirs_at_node_def
        width_of_face_def qE qN qW qS field_simps)
  have sum: "(\<Sum>m\<leftarrow>active_neighbors mg n. z ! m - z ! n) = eE + eN + eW + eS"
    by (simp add: sum_list_active_neighbors links adj eE_def eN_def eW_def eS_def)
  have "elevation_after mg D dt z qs ! n
          = z ! n + (- (calc_net_face_flux_at_cell mg ?q n / area_of_cell mg)) * dt"
    using n core cell by (simp add: elevation_after_def flux_div_after_def)
  also have "\<dots> = z ! n + D * dt / (dx mg * dx mg) * (eE + eN + eW + eS)"
    by (simp add: net area_of_cell_def)
  finally show ?thesis by (simp only: sum)
qed

section \<open>Boundary nodes\<close>

lemma time_loop_ok:
  assumes "length z = number_of_nodes mg" and "length qs = number_of_links mg"
  shows "\<exists>z' qs'. time_loop mg D dt k (z, qs) = Inr (z', qs')
           \<and> length z' = number_of_nodes mg \<and> length qs' = number_of_links mg
           \<and> (\<forall>n < number_of_nodes mg. status_at_node mg ! n \<noteq> CORE \<longrightarrow> z' ! n = z ! n)"
  using assms
proof (induction k arbitrary: z qs)
  case 0
  then show ?case by simp
next
  case (Suc k)
  let ?z = "elevation_after mg D dt z qs" and ?q = "flux_after mg D z qs"
  have step: "diffusion_step mg D dt (z, qs) = Inr (?z, ?q)"
    using Suc.prems by (rule diffusion_step_ok)
  obtain z' qs' where r: "time_loop mg D dt k (?z, ?q) = Inr (z', qs')"
      "length z' = number_of_nodes mg" "length qs' = number_of_links mg"
      "\<forall>n < number_of_nodes mg. status_at_node mg ! n \<noteq> CORE \<longrightarrow> z' ! n = ?z ! n"
    using Suc.IH[OF length_elevation_after length_flux_after] by blast
  have "time_loop mg D dt (Suc k) (z, qs) = Inr (z', qs')"
    by (simp add: step bind_result_def r(1))
  with r show ?case by (simp add: elevation_after_not_core)
qed

text \<open>
  C2. However often the body of the loop runs, on whatever elevations, with whatever
  diffusivity and time step, every node that is not a core node (closed or fixed-value
  boundary) keeps its elevation; only core nodes are written.
\<close>

theorem boundary_nodes_never_altered:
  assumes "length z = number_of_nodes mg" and "length qs = number_of_links mg"
  shows "\<exists>z' qs'. time_loop mg D dt k (z, qs) = Inr (z', qs') \<and> length z' = length z
           \<and> (\<forall>n < length z. status_at_node mg ! n \<noteq> CORE \<longrightarrow> z' ! n = z ! n)"
  using time_loop_ok[OF assms, of D dt k] assms(1) by auto

theorem boundary_nodes_never_altered_witness:
  "length ((scenario_z 12)[2 := 5]) = number_of_nodes scenario_grid
   \<and> length scenario_qs = number_of_links scenario_grid
   \<and> status_at_node scenario_grid ! 2 \<noteq> CORE
   \<and> (\<exists>z' qs'. time_loop scenario_grid (1 / 10) 2 25 ((scenario_z 12)[2 := 5], scenario_qs)
                  = Inr (z', qs') \<and> z' ! 2 = 5)"
proof -
  have z: "length ((scenario_z 12)[2 := 5]) = number_of_nodes scenario_grid" by code_simp
  have q: "length scenario_qs = number_of_links scenario_grid" by code_simp
  have s: "status_at_node scenario_grid ! 2 \<noteq> CORE" by code_simp
  have n: "2 < length ((scenario_z 12)[2 := 5])" "(scenario_z 12)[2 := 5] ! 2 = 5" by code_simp+
  from boundary_nodes_never_altered[OF z q, of "1 / 10" 2 25] n s
  have "\<exists>z' qs'. time_loop scenario_grid (1 / 10) 2 25 ((scenario_z 12)[2 := 5], scenario_qs)
                  = Inr (z', qs') \<and> z' ! 2 = 5" by auto
  with z q s show ?thesis by blast
qed

section \<open>What one pass computes\<close>

lemma net_face_flux_signed_sum:
  "calc_net_face_flux_at_cell mg q n = signed_flux_sum mg q n * width_of_face mg"
  by (simp add: calc_net_face_flux_at_cell_def signed_flux_sum_def links_at_node_def
      link_dirs_at_node_def Let_def algebra_simps)

text \<open>
  C1, as the code has it. One pass computes on every link the gradient (value at the head
  minus value at the tail, over the length of the link); leaves the flux array with minus
  the diffusivity times the gradient on every active link and zero on every inactive link
  (the flux array being zero there before, as \<^verbatim>\<open>add_zeros\<close> made it); computes at
  every node with a cell the signed sum of the fluxes on its links, outflux positive, times
  the width of a face and divided by the area of the cell, and zero at every perimeter
  node; and adds minus that divergence times \<open>dt\<close> to the elevation of every core node
  and of no other node.
\<close>

theorem one_pass_of_the_stepper:
  assumes "wf_grid mg"
    and "length z = number_of_nodes mg" and "length qs = number_of_links mg"
    and "zero_at_inactive_links mg qs"
  shows "\<exists>g z' qs' dqsdx.
      calc_grad_at_link mg z = Inr g
    \<and> (\<forall>l < number_of_links mg.
          g ! l = (z ! node_at_link_head mg l - z ! node_at_link_tail mg l) / length_of_link mg l)
    \<and> diffusion_step mg D dt (z, qs) = Inr (z', qs')
    \<and> (\<forall>l < number_of_links mg. qs' ! l = (if is_active_link mg l then - D * g ! l else 0))
    \<and> calc_flux_div_at_node mg qs' = Inr dqsdx
    \<and> (\<forall>n < number_of_nodes mg.
          dqsdx ! n = (if node_has_cell mg n
                       then signed_flux_sum mg qs' n * width_of_face mg / area_of_cell mg
                       else 0))
    \<and> (\<forall>n < number_of_nodes mg.
          z' ! n = (if status_at_node mg ! n = CORE then z ! n + (- dqsdx ! n) * dt else z ! n))"
proof -
  let ?L = "number_of_links mg" and ?N = "number_of_nodes mg"
  let ?g = "map (\<lambda>l. (z ! node_at_link_head mg l - z ! node_at_link_tail mg l)
                     / length_of_link mg l) [0..<?L]"
  let ?q = "flux_after mg D z qs"
  let ?d = "map (\<lambda>n. if node_has_cell mg n
                       then calc_net_face_flux_at_cell mg ?q n / area_of_cell mg else 0) [0..<?N]"
  have 1: "calc_grad_at_link mg z = Inr ?g" using assms(2) by (rule calc_grad_at_link_ok)
  have 2: "\<forall>l < ?L. ?g ! l
      = (z ! node_at_link_head mg l - z ! node_at_link_tail mg l) / length_of_link mg l"
    by simp
  have 3: "diffusion_step mg D dt (z, qs) = Inr (elevation_after mg D dt z qs, ?q)"
    using assms(2,3) by (rule diffusion_step_ok)
  have 4: "\<forall>l < ?L. ?q ! l = (if is_active_link mg l then - D * ?g ! l else 0)"
    by (simp add: flux_after_nth[OF assms(4)] unit_flux_at_link_def)
  have 5: "calc_flux_div_at_node mg ?q = Inr ?d"
    by (simp add: calc_flux_div_at_node_def length_flux_after)
  have 6: "\<forall>n < ?N. ?d ! n = (if node_has_cell mg n
                       then signed_flux_sum mg ?q n * width_of_face mg / area_of_cell mg
                       else 0)"
    by (simp add: net_face_flux_signed_sum)
  have 7: "\<forall>n < ?N. elevation_after mg D dt z qs ! n
      = (if status_at_node mg ! n = CORE then z ! n + (- ?d ! n) * dt else z ! n)"
    using assms(1) by (auto simp: elevation_after_def flux_div_after_def core_node_has_cell)
  from 1 2 3 4 5 6 7 show ?thesis by blast
qed

text \<open>
  C1, as the claim states it, takes the divergence to be the signed sum itself. On the
  3 x 3 grid of spacing 10 with the core node raised to 10, diffusivity 1 and time step 1,
  the signed sum of the fluxes at the core node is 4, the divergence that the grid returns
  is 4 * 10 / 100, and the new elevation is 10 - 2 / 5 and not 10 - 4.
\<close>

theorem signed_sum_is_divided_by_spacing:
  "diffusion_step open_grid_3x3 1 1 ([0, 0, 0, 0, 10, 0, 0, 0, 0], add_zeros_link open_grid_3x3)
     = Inr ([0, 0, 0, 0, 48 / 5, 0, 0, 0, 0], [0, 0, 0, - 1, 0, - 1, 1, 0, 1, 0, 0, 0])
   \<and> signed_flux_sum open_grid_3x3 [0, 0, 0, - 1, 0, - 1, 1, 0, 1, 0, 0, 0] 4 = 4
   \<and> calc_flux_div_at_node open_grid_3x3 [0, 0, 0, - 1, 0, - 1, 1, 0, 1, 0, 0, 0]
     = Inr [0, 0, 0, 0, 2 / 5, 0, 0, 0, 0]
   \<and> status_at_node open_grid_3x3 ! 4 = CORE
   \<and> [0, 0, 0, 0, 48 / 5, 0, 0, 0, 0] ! 4 \<noteq> [0, 0, 0, 0, 10, 0, 0, 0, 0 :: real] ! 4 + (- 4) * 1"
  by code_simp

theorem one_pass_of_the_stepper_witness:
  "wf_grid open_grid_3x3
   \<and> length [0, 0, 0, 0, 10, 0, 0, 0, 0 :: real] = number_of_nodes open_grid_3x3
   \<and> length (add_zeros_link open_grid_3x3) = number_of_links open_grid_3x3
   \<and> zero_at_inactive_links open_grid_3x3 (add_zeros_link open_grid_3x3)
   \<and> (\<exists>g z' qs' dqsdx.
        calc_grad_at_link open_grid_3x3 [0, 0, 0, 0, 10, 0, 0, 0, 0] = Inr g
      \<and> g ! 6 = - 1
      \<and> diffusion_step open_grid_3x3 1 1 ([0, 0, 0, 0, 10, 0, 0, 0, 0], add_zeros_link open_grid_3x3)
          = Inr (z', qs')
      \<and> qs' ! 6 = 1 \<and> qs' ! 0 = 0
      \<and> calc_flux_div_at_node open_grid_3x3 qs' = Inr dqsdx
      \<and> dqsdx ! 4 = signed_flux_sum open_grid_3x3 qs' 4 * 10 / 100
      \<and> z' ! 4 = 10 + (- dqsdx ! 4) * 1 \<and> z' ! 3 = 0)"
proof -
  let ?z = "[0, 0, 0, 0, 10, 0, 0, 0, 0 :: real]"
  have a: "wf_grid open_grid_3x3" by code_simp
  have b: "length ?z = number_of_nodes open_grid_3x3" by code_simp
  have c: "length (add_zeros_link open_grid_3x3) = number_of_links open_grid_3x3" by code_simp
  have d: "zero_at_inactive_links open_grid_3x3 (add_zeros_link open_grid_3x3)" by code_simp
  have e: "6 < number_of_links open_grid_3x3" "0 < number_of_links open_grid_3x3"
    "4 < number_of_nodes open_grid_3x3" "3 < number_of_nodes open_grid_3x3"
    "is_active_link open_grid_3x3 6" "\<not> is_active_link open_grid_3x3 0"
    "node_has_cell open_grid_3x3 4" "status_at_node open_grid_3x3 ! 4 = CORE"
    "status_at_node open_grid_3x3 ! 3 \<noteq> CORE"
    "node_at_link_head open_grid_3x3 6 = 5" "node_at_link_tail open_grid_3x3 6 = 4"
    "length_of_link open_grid_3x3 6 = 10" "width_of_face open_grid_3x3 = 10"
    "area_of_cell open_grid_3x3 = 100"
    by code_simp+
  from one_pass_of_the_stepper[OF a b c d, of 1 1]
  obtain g z' qs' dqsdx where r:
      "calc_grad_at_link open_grid_3x3 ?z = Inr g"
      "\<forall>l < number_of_links open_grid_3x3.
          g ! l = (?z ! node_at_link_head open_grid_3x3 l - ?z ! node_at_link_tail open_grid_3x3 l)
                  / length_of_link open_grid_3x3 l"
      "diffusion_step open_grid_3x3 1 1 (?z, add_zeros_link open_grid_3x3) = Inr (z', qs')"
      "\<forall>l < number_of_links open_grid_3x3.
          qs' ! l = (if is_active_link open_grid_3x3 l then - 1 * g ! l else 0)"
      "calc_flux_div_at_node open_grid_3x3 qs' = Inr dqsdx"
      "\<forall>n < number_of_nodes open_grid_3x3.
          dqsdx ! n = (if node_has_cell open_grid_3x3 n
                       then signed_flux_sum open_grid_3x3 qs' n * width_of_face open_grid_3x3
                            / area_of_cell open_grid_3x3
                       else 0)"
      "\<forall>n < number_of_nodes open_grid_3x3.
          z' ! n = (if status_at_node open_grid_3x3 ! n = CORE
                    then ?z ! n + (- dqsdx ! n) * 1 else ?z ! n)"
    by blast
  have g6: "g ! 6 = - 1" using r(2) e by simp
  have q6: "qs' ! 6 = 1" "qs' ! 0 = 0" using r(4) e g6 by simp_all
  have d4: "dqsdx ! 4 = signed_flux_sum open_grid_3x3 qs' 4 * 10 / 100" using r(6) e by simp
  have z4: "z' ! 4 = 10 + (- dqsdx ! 4) * 1" "z' ! 3 = 0" using r(7) e by simp_all
  from a b c d r(1,3,5) g6 q6 d4 z4 show ?thesis by blast
qed

section \<open>Neighbours of a core node\<close>

lemma adjacent_nodes_in_range:
  assumes "node_has_cell mg n" and "m \<in> set (adjacent_nodes_at_node mg n)"
  shows "m < number_of_nodes mg"
proof -
  note cl = cell_links[OF assms(1)]
  have "n + 1 < number_of_nodes mg" using node_at_link_in_range(2)[OF cl(9)] cl(2) by simp
  moreover have "n + number_of_node_columns mg < number_of_nodes mg"
    using node_at_link_in_range(2)[OF cl(10)] cl(4) by simp
  ultimately show ?thesis
    using assms(2) by (auto simp: adjacent_nodes_at_node_def Let_def)
qed

lemma active_neighbors_subset:
  "set (active_neighbors mg n) \<subseteq> set (adjacent_nodes_at_node mg n)"
  by (auto simp: active_neighbors_def dest: set_zip_rightD)

lemma length_active_neighbors: "length (active_neighbors mg n) \<le> 4"
proof -
  have "length (active_neighbors mg n)
          \<le> length (zip (links_at_node mg n) (adjacent_nodes_at_node mg n))"
    unfolding active_neighbors_def length_map by (rule length_filter_le)
  also have "\<dots> = 4" by (simp add: links_at_node_def adjacent_nodes_at_node_def Let_def)
  finally show ?thesis .
qed

section \<open>A uniform field\<close>

text \<open>
  C4. If every node has the same elevation, then for every diffusivity and every time
  step one pass leaves the elevation array as it was: all gradients are zero, so every
  core node gets a zero update.
\<close>

theorem uniform_field_is_fixed_point:
  assumes wf: "wf_grid mg"
    and z: "length z = number_of_nodes mg" and qs: "length qs = number_of_links mg"
    and q0: "zero_at_inactive_links mg qs"
    and uniform: "\<forall>n < number_of_nodes mg. z ! n = v"
  shows "\<exists>z' qs'. diffusion_step mg D dt (z, qs) = Inr (z', qs') \<and> z' = z"
proof -
  have "elevation_after mg D dt z qs ! n = z ! n" if n: "n < number_of_nodes mg" for n
  proof (cases "status_at_node mg ! n = CORE")
    case True
    have cell: "node_has_cell mg n" using wf n True by (rule core_node_has_cell)
    have "z ! m - z ! n = 0" if "m \<in> set (active_neighbors mg n)" for m
    proof -
      have "m < number_of_nodes mg"
        using that active_neighbors_subset adjacent_nodes_in_range[OF cell] by blast
      then show ?thesis using uniform n by simp
    qed
    then have "(\<Sum>m\<leftarrow>active_neighbors mg n. z ! m - z ! n) = (\<Sum>m\<leftarrow>active_neighbors mg n. 0)"
      by (intro arg_cong[where f = sum_list] map_cong) simp_all
    then show ?thesis by (simp add: elevation_after_core[OF wf q0 n True])
  next
    case False
    then show ?thesis using n by (simp add: elevation_after_not_core)
  qed
  then have "elevation_after mg D dt z qs = z"
    by (intro nth_equalityI) (simp_all add: length_elevation_after z)
  then show ?thesis by (simp add: diffusion_step_ok[OF z qs])
qed

theorem uniform_field_is_fixed_point_witness:
  "wf_grid scenario_grid
   \<and> length (replicate 25 (7 :: real)) = number_of_nodes scenario_grid
   \<and> length scenario_qs = number_of_links scenario_grid
   \<and> zero_at_inactive_links scenario_grid scenario_qs
   \<and> (\<exists>z' qs'. diffusion_step scenario_grid (- 3) 100 (replicate 25 7, scenario_qs) = Inr (z', qs')
          \<and> z' = replicate 25 7)"
proof -
  have a: "wf_grid scenario_grid" by code_simp
  have b: "length (replicate 25 (7 :: real)) = number_of_nodes scenario_grid" by code_simp
  have c: "length scenario_qs = number_of_links scenario_grid" by code_simp
  have d: "zero_at_inactive_links scenario_grid scenario_qs" by code_simp
  have e: "\<forall>n < number_of_nodes scenario_grid. replicate 25 (7 :: real) ! n = 7"
    using b by simp
  from uniform_field_is_fixed_point[OF a b c d e, of "- 3" 100] a b c d show ?thesis by simp
qed

section \<open>The local range of a stable step\<close>

lemma courant_number_bounds:
  fixes D dt h :: real
  assumes "0 < h" and "0 < D" and "0 \<le> dt" and "dt \<le> 0.2 * h * h / D"
  shows "0 \<le> D * dt / (h * h)" and "D * dt / (h * h) \<le> 1 / 5"
proof -
  show "0 \<le> D * dt / (h * h)" using assms by simp
  have "D * dt \<le> 0.2 * h * h" using assms(2,4) by (simp add: field_simps)
  then show "D * dt / (h * h) \<le> 1 / 5" using assms(1) by (simp add: field_simps)
qed

lemma stencil_lower_bound:
  fixes k lo a :: real
  assumes k: "0 \<le> k" "k \<le> 1 / 5" and len: "length ms \<le> 4"
    and a: "lo \<le> a" and ms: "\<And>m. m \<in> set ms \<Longrightarrow> lo \<le> f m"
  shows "lo \<le> a + k * (\<Sum>m\<leftarrow>ms. f m - a)"
proof -
  have "(\<Sum>m\<leftarrow>ms. lo - a) \<le> (\<Sum>m\<leftarrow>ms. f m - a)"
    by (rule sum_list_mono) (simp add: ms)
  then have s: "real (length ms) * (lo - a) \<le> (\<Sum>m\<leftarrow>ms. f m - a)"
    by (simp add: sum_list_triv)
  have "k * real (length ms) \<le> 1 / 5 * 4"
    using k len by (intro mult_mono) simp_all
  then have "k * real (length ms) * (a - lo) \<le> 4 / 5 * (a - lo)"
    using a by (intro mult_right_mono) simp_all
  moreover have "k * (real (length ms) * (lo - a)) \<le> k * (\<Sum>m\<leftarrow>ms. f m - a)"
    using s k(1) by (rule mult_left_mono)
  ultimately show ?thesis using a by (simp add: algebra_simps)
qed

lemma stencil_upper_bound:
  fixes k hi a :: real
  assumes k: "0 \<le> k" "k \<le> 1 / 5" and len: "length ms \<le> 4"
    and a: "a \<le> hi" and ms: "\<And>m. m \<in> set ms \<Longrightarrow> f m \<le> hi"
  shows "a + k * (\<Sum>m\<leftarrow>ms. f m - a) \<le> hi"
proof -
  have "- hi \<le> - a + k * (\<Sum>m\<leftarrow>ms. - f m - (- a))"
    using k len by (rule stencil_lower_bound) (simp_all add: a ms)
  moreover have "(\<Sum>m\<leftarrow>ms. - f m - (- a)) = - (\<Sum>m\<leftarrow>ms. f m - a)"
    by (induction ms) simp_all
  ultimately show ?thesis by simp
qed

text \<open>
  C10, as the code has it. For a positive diffusivity and a time step between zero and
  \<open>0.2 * dx * dx / D\<close>, the new elevation of a core node lies between the least and the
  greatest old elevation among the node and its neighbours across active links.
\<close>

theorem stable_step_stays_in_local_range:
  assumes wf: "wf_grid mg"
    and z: "length z = number_of_nodes mg" and qs: "length qs = number_of_links mg"
    and q0: "zero_at_inactive_links mg qs"
    and D: "0 < D" and dt: "0 \<le> dt" "dt \<le> 0.2 * dx mg * dx mg / D"
    and n: "n < number_of_nodes mg" and core: "status_at_node mg ! n = CORE"
  shows "\<exists>z' qs'. diffusion_step mg D dt (z, qs) = Inr (z', qs')
           \<and> Min (set (map (\<lambda>m. z ! m) (n # active_neighbors mg n))) \<le> z' ! n
           \<and> z' ! n \<le> Max (set (map (\<lambda>m. z ! m) (n # active_neighbors mg n)))"
proof -
  let ?S = "set (map (\<lambda>m. z ! m) (n # active_neighbors mg n))"
  let ?k = "D * dt / (dx mg * dx mg)"
  have h: "0 < dx mg" using wf by (simp add: wf_grid_def)
  note k = courant_number_bounds[OF h D dt]
  have fin: "finite ?S" "z ! n \<in> ?S" by simp_all
  have mem: "z ! m \<in> ?S" if "m \<in> set (active_neighbors mg n)" for m using that by simp
  have lo: "Min ?S \<le> z ! n + ?k * (\<Sum>m\<leftarrow>active_neighbors mg n. z ! m - z ! n)"
    using k length_active_neighbors
    by (rule stencil_lower_bound) (use fin mem in \<open>auto intro: Min_le\<close>)
  have hi: "z ! n + ?k * (\<Sum>m\<leftarrow>active_neighbors mg n. z ! m - z ! n) \<le> Max ?S"
    using k length_active_neighbors
    by (rule stencil_upper_bound) (use fin mem in \<open>auto intro: Max_ge\<close>)
  show ?thesis
    using lo hi by (simp add: diffusion_step_ok[OF z qs] elevation_after_core[OF wf q0 n core])
qed

text \<open>
  C10, as the claim states it, admits every time step below the bound, also a negative
  one. In the end-to-end scenario with the time step \<open>-2\<close> the raised node goes from 10
  to 18, above the greatest old elevation around it.
\<close>

theorem negative_time_step_overshoots:
  "(0 :: real) < 1 / 10 \<and> (- 2 :: real) \<le> 0.2 * dx scenario_grid * dx scenario_grid / (1 / 10)
   \<and> status_at_node scenario_grid ! 12 = CORE
   \<and> diffusion_step scenario_grid (1 / 10) (- 2) (scenario_z 12, scenario_qs)
       = Inr ([0, 0, 0, 0, 0, 0, 0, - 2, 0, 0, 0, - 2, 18, - 2, 0, 0, 0, - 2, 0, 0, 0, 0, 0, 0, 0],
              [0, 0, 0, 0, 0, 0, 0, 0, 0, 0, 0, 0, 0, 0, 0, - 1, 0, 0, 0, - 1, 1, 0, 0, 0, 1,
               0, 0, 0, 0, 0, 0, 0, 0, 0, 0, 0, 0, 0, 0, 0])
   \<and> Max (set (map (\<lambda>m. scenario_z 12 ! m) (12 # active_neighbors scenario_grid 12))) = 10
   \<and> (10 :: real) < 18"
  by code_simp

theorem stable_step_stays_in_local_range_witness:
  "wf_grid scenario_grid
   \<and> length (scenario_z 12) = number_of_nodes scenario_grid
   \<and> length scenario_qs = number_of_links scenario_grid
   \<and> zero_at_inactive_links scenario_grid scenario_qs
   \<and> (0 :: real) < 1 / 10 \<and> (0 :: real) \<le> 2
   \<and> (2 :: real) \<le> 0.2 * dx scenario_grid * dx scenario_grid / (1 / 10)
   \<and> 12 < number_of_nodes scenario_grid \<and> status_at_node scenario_grid ! 12 = CORE
   \<and> (\<exists>z' qs'. diffusion_step scenario_grid (1 / 10) 2 (scenario_z 12, scenario_qs) = Inr (z', qs')
          \<and> 0 \<le> z' ! 12 \<and> z' ! 12 \<le> 10)"
proof -
  have a: "wf_grid scenario_grid" by code_simp
  have b: "length (scenario_z 12) = number_of_nodes scenario_grid" by code_simp
  have c: "length scenario_qs = number_of_links scenario_grid" by code_simp
  have d: "zero_at_inactive_links scenario_grid scenario_qs" by code_simp
  have e: "(0 :: real) < 1 / 10" "(0 :: real) \<le> 2" by simp_all
  have f: "(2 :: real) \<le> 0.2 * dx scenario_grid * dx scenario_grid / (1 / 10)" by code_simp
  have g: "12 < number_of_nodes scenario_grid" by code_simp
  have h: "status_at_node scenario_grid ! 12 = CORE" by code_simp
  have m: "Min (set (map (\<lambda>m. scenario_z 12 ! m) (12 # active_neighbors scenario_grid 12))) = 0"
    "Max (set (map (\<lambda>m. scenario_z 12 ! m) (12 # active_neighbors scenario_grid 12))) = 10"
    by code_simp+
  from stable_step_stays_in_local_range[OF a b c d e f g h] a b c d e f g h
  show ?thesis unfolding m by blast
qed

section \<open>The end-to-end scenario\<close>

text \<open>
  C6. On the 5 x 5 grid of spacing 1 with closed edges, diffusivity 0.1 and time step 2,
  with the centre node 12 raised to 10 on the flat field of zeros: the node has four
  active links, one pass lowers it by \<open>dt * D * 4 * (10 / 1) = 8\<close> to 2, and each of its
  four neighbours 7, 11, 13 and 17 gains the fourth part of that, 2; no other node moves.
  Raised instead, a node on a side of the core (node 7, three active links) goes to 4 and
  a node in a corner of the core (node 6, two active links) to 6, each neighbour across an
  active link again gaining 2; the results for the remaining six core nodes are listed.
\<close>

theorem end_to_end_scenario:
  "dx scenario_grid = 1
   \<and> core_nodes scenario_grid = [6, 7, 8, 11, 12, 13, 16, 17, 18]
   \<and> scenario_z 12 = [0, 0, 0, 0, 0,  0, 0, 0, 0, 0,  0, 0, 10, 0, 0,  0, 0, 0, 0, 0,  0, 0, 0, 0, 0]
   \<and> scenario_qs = replicate 40 0
   \<and> active_links_at_node scenario_grid 12 = [20, 24, 19, 15]
   \<and> active_neighbors scenario_grid 12 = [13, 17, 11, 7]
   \<and> map_sum id fst (diffusion_step scenario_grid (1 / 10) 2 (scenario_z 12, scenario_qs))
       = Inr [0, 0, 0, 0, 0,  0, 0, 2, 0, 0,  0, 2, 2, 2, 0,  0, 0, 2, 0, 0,  0, 0, 0, 0, 0]
   \<and> (2 :: real) = 10 - 2 * (1 / 10) * 4 * (10 / 1)
   \<and> (2 :: real) = 0 + 2 * (1 / 10) * 4 * (10 / 1) / 4
   \<and> active_links_at_node scenario_grid 7 = [11, 15, 10]
   \<and> active_neighbors scenario_grid 7 = [8, 12, 6]
   \<and> map_sum id fst (diffusion_step scenario_grid (1 / 10) 2 (scenario_z 7, scenario_qs))
       = Inr [0, 0, 0, 0, 0,  0, 2, 4, 2, 0,  0, 0, 2, 0, 0,  0, 0, 0, 0, 0,  0, 0, 0, 0, 0]
   \<and> (4 :: real) = 10 - 2 * (1 / 10) * 3 * (10 / 1)
   \<and> (2 :: real) = 0 + 2 * (1 / 10) * 3 * (10 / 1) / 3
   \<and> active_links_at_node scenario_grid 6 = [10, 14]
   \<and> active_neighbors scenario_grid 6 = [7, 11]
   \<and> map_sum id fst (diffusion_step scenario_grid (1 / 10) 2 (scenario_z 6, scenario_qs))
       = Inr [0, 0, 0, 0, 0,  0, 6, 2, 0, 0,  0, 2, 0, 0, 0,  0, 0, 0, 0, 0,  0, 0, 0, 0, 0]
   \<and> (6 :: real) = 10 - 2 * (1 / 10) * 2 * (10 / 1)
   \<and> (2 :: real) = 0 + 2 * (1 / 10) * 2 * (10 / 1) / 2
   \<and> map (\<lambda>p. length (active_links_at_node scenario_grid p)) [8, 11, 13, 16, 17, 18]
       = [2, 3, 3, 2, 3, 2]
   \<and> map (\<lambda>p. map_sum id fst (diffusion_step scenario_grid (1 / 10) 2 (scenario_z p, scenario_qs)))
         [8, 11, 13, 16, 17, 18]
       = [Inr [0, 0, 0, 0, 0,  0, 0, 2, 6, 0,  0, 0, 0, 2, 0,  0, 0, 0, 0, 0,  0, 0, 0, 0, 0],
          Inr [0, 0, 0, 0, 0,  0, 2, 0, 0, 0,  0, 4, 2, 0, 0,  0, 2, 0, 0, 0,  0, 0, 0, 0, 0],
          Inr [0, 0, 0, 0, 0,  0, 0, 0, 2, 0,  0, 0, 2, 4, 0,  0, 0, 0, 2, 0,  0, 0, 0, 0, 0],
          Inr [0, 0, 0, 0, 0,  0, 0, 0, 0, 0,  0, 2, 0, 0, 0,  0, 6, 2, 0, 0,  0, 0, 0, 0, 0],
          Inr [0, 0, 0, 0, 0,  0, 0, 0, 0, 0,  0, 0, 2, 0, 0,  0, 2, 4, 2, 0,  0, 0, 0, 0, 0],
          Inr [0, 0, 0, 0, 0,  0, 0, 0, 0, 0,  0, 0, 0, 2, 0,  0, 0, 2, 6, 0,  0, 0, 0, 0, 0]]"
  by code_simp

section \<open>A single peak\<close>

lemma active_neighbors_iff:
  "k \<in> set (active_neighbors mg m) \<longleftrightarrow>
     (let c = number_of_node_columns mg; i = m div c; j = m mod c in
        (is_active_link mg (horizontal_link mg i j) \<and> k = m + 1)
      \<or> (is_active_link mg (vertical_link mg i j) \<and> k = m + c)
      \<or> (is_active_link mg (horizontal_link mg i (j - 1)) \<and> k = m - 1)
      \<or> (is_active_link mg (vertical_link mg (i - 1) j) \<and> k = m - c))"
  by (auto simp: active_neighbors_def links_at_node_def adjacent_nodes_at_node_def Let_def)

lemma active_neighbors_sym:
  assumes cell: "node_has_cell mg m" and k: "k \<in> set (active_neighbors mg m)"
  shows "m \<in> set (active_neighbors mg k)"
proof -
  define c where "c = number_of_node_columns mg"
  define i where "i = m div c"
  define j where "j = m mod c"
  have h: "0 < i" "0 < j" "j + 1 < c"
    using cell by (simp_all add: node_has_cell_def Let_def c_def i_def j_def)
  have m: "m = i * c + j" by (simp add: i_def j_def)
  have dm: "(a * c + b) div c = a \<and> (a * c + b) mod c = b" if "b < c" for a b
    using that by simp
  from k consider
      (E) "is_active_link mg (horizontal_link mg i j)" "k = m + 1"
    | (N) "is_active_link mg (vertical_link mg i j)" "k = m + c"
    | (W) "is_active_link mg (horizontal_link mg i (j - 1))" "k = m - 1"
    | (S) "is_active_link mg (vertical_link mg (i - 1) j)" "k = m - c"
    unfolding active_neighbors_iff Let_def c_def[symmetric] i_def[symmetric] j_def[symmetric]
    by blast
  then show ?thesis
  proof cases
    case E
    have ke: "k = i * c + (j + 1)" using E(2) m by simp
    have "k div c = i \<and> k mod c = j + 1" unfolding ke by (rule dm) (rule h(3))
    then show ?thesis
      using E unfolding active_neighbors_iff[of m] Let_def c_def[symmetric] by simp
  next
    case N
    have ke: "k = (i + 1) * c + j" using N(2) m by simp
    have "k div c = i + 1 \<and> k mod c = j" unfolding ke by (rule dm) (use h in simp)
    then show ?thesis
      using N unfolding active_neighbors_iff[of m] Let_def c_def[symmetric] by simp
  next
    case W
    have ke: "k = i * c + (j - 1)" using W(2) m h by simp
    have "k div c = i \<and> k mod c = j - 1" unfolding ke by (rule dm) (use h in simp)
    moreover have "k + 1 = m" using W(2) m h by simp
    ultimately show ?thesis
      using W unfolding active_neighbors_iff[of m] Let_def c_def[symmetric] by simp
  next
    case S
    obtain i' where i': "i = Suc i'" using h(1) by (cases i) auto
    have ke: "k = i' * c + j" using S(2) m i' by simp
    have "k div c = i' \<and> k mod c = j" unfolding ke by (rule dm) (use h in simp)
    moreover have "k + c = m" using ke m i' by simp
    ultimately show ?thesis
      using S i' unfolding active_neighbors_iff[of m] Let_def c_def[symmetric] by simp
  qed
qed


lemma sum_list_neg:
  fixes f :: "'a \<Rightarrow> real"
  assumes "xs \<noteq> []" and "\<And>x. x \<in> set xs \<Longrightarrow> f x < 0"
  shows "(\<Sum>x\<leftarrow>xs. f x) < 0"
  using sum_list_strict_mono[of xs f "\<lambda>_. 0"] assms by simp

lemma sum_list_pos_member:
  fixes f :: "'a \<Rightarrow> real"
  assumes "y \<in> set xs" and "0 < f y" and "\<And>x. x \<in> set xs \<Longrightarrow> 0 \<le> f x"
  shows "0 < (\<Sum>x\<leftarrow>xs. f x)"
  using assms
proof (induction xs)
  case Nil
  then show ?case by simp
next
  case (Cons x xs)
  have nonneg: "0 \<le> (\<Sum>x\<leftarrow>xs. f x)"
    by (rule sum_list_nonneg) (use Cons.prems(3) in auto)
  show ?case
  proof (cases "y = x")
    case True
    then show ?thesis using Cons.prems(2) nonneg by simp
  next
    case False
    then have "0 < (\<Sum>x\<leftarrow>xs. f x)" using Cons by auto
    moreover have "0 \<le> f x" using Cons.prems(3) by simp
    ultimately show ?thesis by simp
  qed
qed

text \<open>
  C7, as the code has it. Let a core node be higher than its four adjacent nodes, the
  diffusivity positive and the time step positive and within the stability bound. Then
  one pass strictly lowers the node, provided at least one of its links is active (a node
  whose neighbours are all closed keeps its elevation); and it strictly raises every core
  neighbour across an active link that is not higher than any of its own neighbours
  across active links, as on a field that is flat around the peak.
\<close>

theorem peak_lowered_neighbors_raised:
  assumes wf: "wf_grid mg"
    and z: "length z = number_of_nodes mg" and qs: "length qs = number_of_links mg"
    and q0: "zero_at_inactive_links mg qs"
    and D: "0 < D" and dt: "0 < dt" "dt \<le> 0.2 * dx mg * dx mg / D"
    and m: "m < number_of_nodes mg" and core: "status_at_node mg ! m = CORE"
    and peak: "\<forall>k \<in> set (adjacent_nodes_at_node mg m). z ! k < z ! m"
    and act: "active_neighbors mg m \<noteq> []"
  shows "\<exists>z' qs'. diffusion_step mg D dt (z, qs) = Inr (z', qs')
           \<and> z' ! m < z ! m
           \<and> (\<forall>k \<in> set (active_neighbors mg m).
                 status_at_node mg ! k = CORE
                 \<and> (\<forall>j \<in> set (active_neighbors mg k). z ! k \<le> z ! j)
                 \<longrightarrow> z ! k < z' ! k)"
proof -
  let ?z' = "elevation_after mg D dt z qs"
  let ?c = "D * dt / (dx mg * dx mg)"
  have h: "0 < dx mg" using wf by (simp add: wf_grid_def)
  have c: "0 < ?c" using h D dt(1) by simp
  have cell: "node_has_cell mg m" using wf m core by (rule core_node_has_cell)
  have "(\<Sum>k\<leftarrow>active_neighbors mg m. z ! k - z ! m) < 0"
    using act by (rule sum_list_neg) (use peak active_neighbors_subset in fastforce)
  with c have "?c * (\<Sum>k\<leftarrow>active_neighbors mg m. z ! k - z ! m) < 0"
    by (rule mult_pos_neg)
  moreover have "?z' ! m = z ! m + ?c * (\<Sum>k\<leftarrow>active_neighbors mg m. z ! k - z ! m)"
    using wf q0 m core by (rule elevation_after_core)
  ultimately have down: "?z' ! m < z ! m" by linarith
  have up: "z ! k < ?z' ! k"
    if k: "k \<in> set (active_neighbors mg m)" and kcore: "status_at_node mg ! k = CORE"
      and low: "\<forall>j \<in> set (active_neighbors mg k). z ! k \<le> z ! j" for k
  proof -
    have kN: "k < number_of_nodes mg"
      using k active_neighbors_subset adjacent_nodes_in_range[OF cell] by blast
    have mk: "m \<in> set (active_neighbors mg k)" using cell k by (rule active_neighbors_sym)
    have "z ! k < z ! m" using k peak active_neighbors_subset by blast
    then have "0 < z ! m - z ! k" by simp
    with mk have "0 < (\<Sum>j\<leftarrow>active_neighbors mg k. z ! j - z ! k)"
      by (rule sum_list_pos_member) (use low in simp)
    with c have "0 < ?c * (\<Sum>j\<leftarrow>active_neighbors mg k. z ! j - z ! k)"
      by (rule mult_pos_pos)
    moreover have "?z' ! k = z ! k + ?c * (\<Sum>j\<leftarrow>active_neighbors mg k. z ! j - z ! k)"
      using wf q0 kN kcore by (rule elevation_after_core)
    ultimately show ?thesis by linarith
  qed
  show ?thesis
    using down up by (simp add: diffusion_step_ok[OF z qs])
qed

text \<open>
  C7, as the claim states it, fails for the neighbours. On the scenario grid (all edges
  closed) the field \<open>ridge_z\<close> has its only local maximum at the centre node, which is
  higher than its four neighbours; after one pass with the time step at the stability
  bound the centre has gone down from 10 to 46 / 5, and its neighbour 7 has gone down
  too, from 9 to 28 / 5, because it loses more to the corners than it gains from the
  centre.
\<close>

theorem neighbor_of_peak_is_lowered:
  "list_all (\<lambda>n. node_has_cell scenario_grid n \<or> status_at_node scenario_grid ! n = CLOSED_BOUNDARY)
     [0..<number_of_nodes scenario_grid]
   \<and> status_at_node scenario_grid ! 12 = CORE
   \<and> list_all (\<lambda>k. ridge_z ! k < ridge_z ! 12) (adjacent_nodes_at_node scenario_grid 12)
   \<and> list_all (\<lambda>n. n = 12 \<or> list_ex (\<lambda>k. ridge_z ! n < ridge_z ! k)
                                   (adjacent_nodes_at_node scenario_grid n))
        (core_nodes scenario_grid)
   \<and> (0 :: real) < 2 \<and> (2 :: real) \<le> 0.2 * dx scenario_grid * dx scenario_grid / (1 / 10)
   \<and> diffusion_step scenario_grid (1 / 10) 2 (ridge_z, scenario_qs)
       = Inr ([0, 0, 0, 0, 0,
               0, 18 / 5, 28 / 5, 18 / 5, 0,
               0, 28 / 5, 46 / 5, 28 / 5, 0,
               0, 18 / 5, 28 / 5, 18 / 5, 0,
               0, 0, 0, 0, 0],
              [0, 0, 0, 0, 0, 0, 0, 0, 0, 0, - (9 / 10), 9 / 10, 0, 0, - (9 / 10),
               - (1 / 10), - (9 / 10), 0, 0, - (1 / 10), 1 / 10, 0, 0, 9 / 10, 1 / 10,
               9 / 10, 0, 0, - (9 / 10), 9 / 10, 0, 0, 0, 0, 0, 0, 0, 0, 0, 0])
   \<and> 7 \<in> set (adjacent_nodes_at_node scenario_grid 12)
   \<and> status_at_node scenario_grid ! 7 = CORE
   \<and> (28 / 5 :: real) < ridge_z ! 7"
  by code_simp


theorem peak_lowered_neighbors_raised_witness:
  "wf_grid scenario_grid
   \<and> length (scenario_z 12) = number_of_nodes scenario_grid
   \<and> length scenario_qs = number_of_links scenario_grid
   \<and> zero_at_inactive_links scenario_grid scenario_qs
   \<and> (0 :: real) < 1 / 10 \<and> (0 :: real) < 2
   \<and> (2 :: real) \<le> 0.2 * dx scenario_grid * dx scenario_grid / (1 / 10)
   \<and> 12 < number_of_nodes scenario_grid \<and> status_at_node scenario_grid ! 12 = CORE
   \<and> list_all (\<lambda>k. scenario_z 12 ! k < scenario_z 12 ! 12) (adjacent_nodes_at_node scenario_grid 12)
   \<and> active_neighbors scenario_grid 12 \<noteq> []
   \<and> 7 \<in> set (active_neighbors scenario_grid 12) \<and> status_at_node scenario_grid ! 7 = CORE
   \<and> list_all (\<lambda>j. scenario_z 12 ! 7 \<le> scenario_z 12 ! j) (active_neighbors scenario_grid 7)
   \<and> (\<exists>z' qs'. diffusion_step scenario_grid (1 / 10) 2 (scenario_z 12, scenario_qs) = Inr (z', qs')
          \<and> z' ! 12 < 10 \<and> 0 < z' ! 7)"
proof -
  have a: "wf_grid scenario_grid" by code_simp
  have b: "length (scenario_z 12) = number_of_nodes scenario_grid" by code_simp
  have c: "length scenario_qs = number_of_links scenario_grid" by code_simp
  have d: "zero_at_inactive_links scenario_grid scenario_qs" by code_simp
  have e: "(0 :: real) < 1 / 10" "(0 :: real) < 2" by simp_all
  have f: "(2 :: real) \<le> 0.2 * dx scenario_grid * dx scenario_grid / (1 / 10)" by code_simp
  have g: "12 < number_of_nodes scenario_grid" by code_simp
  have h: "status_at_node scenario_grid ! 12 = CORE" by code_simp
  have i: "list_all (\<lambda>k. scenario_z 12 ! k < scenario_z 12 ! 12)
             (adjacent_nodes_at_node scenario_grid 12)" by code_simp
  have j: "active_neighbors scenario_grid 12 \<noteq> []" by code_simp
  have k: "7 \<in> set (active_neighbors scenario_grid 12)" by code_simp
  have l: "status_at_node scenario_grid ! 7 = CORE" by code_simp
  have m: "list_all (\<lambda>j. scenario_z 12 ! 7 \<le> scenario_z 12 ! j)
             (active_neighbors scenario_grid 7)" by code_simp
  have v: "scenario_z 12 ! 12 = 10" "scenario_z 12 ! 7 = 0" by code_simp+
  have i': "\<forall>k \<in> set (adjacent_nodes_at_node scenario_grid 12). scenario_z 12 ! k < scenario_z 12 ! 12"
    using i by (simp add: list_all_iff)
  have m': "\<forall>j \<in> set (active_neighbors scenario_grid 7). scenario_z 12 ! 7 \<le> scenario_z 12 ! j"
    using m by (simp add: list_all_iff)
  from peak_lowered_neighbors_raised[OF a b c d e f g h i' j]
  obtain z' qs' where r:
    "diffusion_step scenario_grid (1 / 10) 2 (scenario_z 12, scenario_qs) = Inr (z', qs')"
    "z' ! 12 < scenario_z 12 ! 12"
    "\<forall>k \<in> set (active_neighbors scenario_grid 12).
        status_at_node scenario_grid ! k = CORE
        \<and> (\<forall>j \<in> set (active_neighbors scenario_grid k). scenario_z 12 ! k \<le> scenario_z 12 ! j)
        \<longrightarrow> scenario_z 12 ! k < z' ! k"
    by blast
  from r(3) k l m' have "scenario_z 12 ! 7 < z' ! 7" by blast
  with r(1,2) v have "\<exists>z' qs'. diffusion_step scenario_grid (1 / 10) 2 (scenario_z 12, scenario_qs)
      = Inr (z', qs') \<and> z' ! 12 < 10 \<and> 0 < z' ! 7" by auto
  with a b c d e f g h i j k l m show ?thesis by blast
qed

section \<open>Conservation\<close>

lemma shifted_sum_cancels:
  fixes F :: "nat \<Rightarrow> real"
  assumes zero: "\<And>n. N \<le> n + s \<Longrightarrow> F n = 0"
  shows "(\<Sum>n = 0..<N. F n - (if n < s then 0 else F (n - s))) = 0"
proof (cases "s \<le> N")
  case True
  have "(\<Sum>n = 0..<N. if n < s then 0 else F (n - s)) = (\<Sum>n = s..<N. F (n - s))"
  proof -
    have "(\<Sum>n = 0..<N. if n < s then 0 else F (n - s))
        = (\<Sum>n = 0..<s. if n < s then 0 else F (n - s))
          + (\<Sum>n = s..<N. if n < s then 0 else F (n - s))"
      using True by (intro sum.atLeastLessThan_concat[symmetric]) simp_all
    then show ?thesis by simp
  qed
  also have "\<dots> = (\<Sum>n = 0 + s..<(N - s) + s. F (n - s))" using True by simp
  also have "\<dots> = (\<Sum>n = 0..<N - s. F n)"
    by (simp only: sum.shift_bounds_nat_ivl) simp
  finally have shift: "(\<Sum>n = 0..<N. if n < s then 0 else F (n - s)) = (\<Sum>n = 0..<N - s. F n)" .
  have "(\<Sum>n = 0..<N. F n) = (\<Sum>n = 0..<N - s. F n) + (\<Sum>n = N - s..<N. F n)"
    by (intro sum.atLeastLessThan_concat[symmetric]) simp_all
  moreover have "(\<Sum>n = N - s..<N. F n) = 0"
    by (rule sum.neutral) (use zero in auto)
  ultimately show ?thesis by (simp add: sum_subtractf shift)
next
  case False
  then have "F n = 0" if "n < N" for n using that zero by simp
  moreover have "(if n < s then 0 else F (n - s)) = 0" if "n < N" for n using that False by simp
  ultimately show ?thesis by simp
qed


lemma closed_grid_active_link:
  assumes closed: "all_boundaries_closed mg"
    and t: "node_at_link_tail mg l < number_of_nodes mg"
    and h: "node_at_link_head mg l < number_of_nodes mg"
  shows "is_active_link mg l \<longleftrightarrow>
           status_at_node mg ! node_at_link_tail mg l = CORE
           \<and> status_at_node mg ! node_at_link_head mg l = CORE"
proof -
  have "status_at_node mg ! node_at_link_tail mg l \<noteq> FIXED_VALUE_BOUNDARY"
       "status_at_node mg ! node_at_link_head mg l \<noteq> FIXED_VALUE_BOUNDARY"
    using closed t h by (simp_all add: all_boundaries_closed_def list_all_iff)
  then show ?thesis
    by (cases "status_at_node mg ! node_at_link_tail mg l";
        cases "status_at_node mg ! node_at_link_head mg l")
       (simp_all add: is_active_link_def Let_def)
qed

lemma closed_grid_neighbor_sum:
  fixes z :: "real list"
  assumes wf: "wf_grid mg" and closed: "all_boundaries_closed mg"
    and n: "n < number_of_nodes mg"
  defines "core \<equiv> \<lambda>k. k < number_of_nodes mg \<and> status_at_node mg ! k = CORE"
  defines "c \<equiv> number_of_node_columns mg"
  defines "F \<equiv> \<lambda>s k. if core k \<and> core (k + s) then z ! (k + s) - z ! k else 0"
  shows "(if status_at_node mg ! n = CORE
          then (\<Sum>m\<leftarrow>active_neighbors mg n. z ! m - z ! n) else 0)
       = (F 1 n - (if n < 1 then 0 else F 1 (n - 1)))
         + (F c n - (if n < c then 0 else F c (n - c)))"
proof (cases "status_at_node mg ! n = CORE")
  case True
  have cell: "node_has_cell mg n" using wf n True by (rule core_node_has_cell)
  note cl = cell_links[OF cell, folded c_def]
  have pos: "1 \<le> n" "c \<le> n" "n - 1 + 1 = n" "n - c + c = n"
  proof -
    have "0 < n mod c" "0 < n div c" "0 < c"
      using cell by (auto simp: node_has_cell_def Let_def c_def)
    then show "1 \<le> n" by (metis One_nat_def Suc_leI mod_less_eq_dividend order_less_le_trans)
    then show "n - 1 + 1 = n" by simp
    have "c * 1 \<le> c * (n div c)" using \<open>0 < n div c\<close> by (intro mult_le_mono2) simp
    also have "\<dots> \<le> n" by simp
    finally show "c \<le> n" by simp
    then show "n - c + c = n" by simp
  qed
  have adj: "n + 1 < number_of_nodes mg" "n + c < number_of_nodes mg"
    "n - 1 < number_of_nodes mg" "n - c < number_of_nodes mg"
    using adjacent_nodes_in_range[OF cell] n
    by (simp_all add: adjacent_nodes_at_node_def Let_def c_def)
  have coren: "core n" using n True by (simp add: core_def)
  define lE where "lE = horizontal_link mg (n div c) (n mod c)"
  define lN where "lN = vertical_link mg (n div c) (n mod c)"
  define lW where "lW = horizontal_link mg (n div c) (n mod c - 1)"
  define lS where "lS = vertical_link mg (n div c - 1) (n mod c)"
  note cl' = cl[folded lE_def lN_def lW_def lS_def]
  have links: "links_at_node mg n = [lE, lN, lW, lS]"
    by (simp add: links_at_node_def Let_def lE_def lN_def lW_def lS_def c_def)
  have adjs: "adjacent_nodes_at_node mg n = [n + 1, n + c, n - 1, n - c]"
    by (simp add: adjacent_nodes_at_node_def Let_def c_def)
  have aE: "is_active_link mg lE \<longleftrightarrow> core (n + 1)"
    using closed_grid_active_link[OF closed, of lE] cl'(1,2) adj n True by (simp add: core_def)
  have aN: "is_active_link mg lN \<longleftrightarrow> core (n + c)"
    using closed_grid_active_link[OF closed, of lN] cl'(3,4) adj n True by (simp add: core_def)
  have aW: "is_active_link mg lW \<longleftrightarrow> core (n - 1)"
    using closed_grid_active_link[OF closed, of lW] cl'(5,6) adj n True by (simp add: core_def)
  have aS: "is_active_link mg lS \<longleftrightarrow> core (n - c)"
    using closed_grid_active_link[OF closed, of lS] cl'(7,8) adj n True by (simp add: core_def)
  have "(\<Sum>m\<leftarrow>active_neighbors mg n. z ! m - z ! n)
      = (if core (n + 1) then z ! (n + 1) - z ! n else 0)
        + (if core (n + c) then z ! (n + c) - z ! n else 0)
        + (if core (n - 1) then z ! (n - 1) - z ! n else 0)
        + (if core (n - c) then z ! (n - c) - z ! n else 0)"
    unfolding sum_list_active_neighbors links adjs by (simp add: aE aN aW aS)
  also have "\<dots> = (F 1 n - F 1 (n - 1)) + (F c n - F c (n - c))"
    using coren pos by (simp add: F_def)
  finally show ?thesis using True pos by simp
next
  case False
  then have "\<not> core n" by (simp add: core_def)
  then have "F 1 n = 0" "F c n = 0"
    "(if n < 1 then 0 else F 1 (n - 1)) = 0" "(if n < c then 0 else F c (n - c)) = 0"
    by (auto simp: F_def)
  then show ?thesis using False by simp
qed


text \<open>
  C3. On a grid all of whose boundary nodes are closed, for any elevations, any
  diffusivity and any time step, one pass leaves the sum of the elevations of the core
  nodes unchanged: what one core node loses along a link its core neighbour gains, and
  nothing crosses a link that touches a closed node. The sums are sums of reals, so the
  difference is exactly zero.
\<close>

theorem closed_boundaries_conserve_sum:
  assumes wf: "wf_grid mg"
    and z: "length z = number_of_nodes mg" and qs: "length qs = number_of_links mg"
    and q0: "zero_at_inactive_links mg qs"
    and closed: "all_boundaries_closed mg"
  shows "\<exists>z' qs'. diffusion_step mg D dt (z, qs) = Inr (z', qs')
           \<and> (\<Sum>n\<leftarrow>core_nodes mg. z' ! n) = (\<Sum>n\<leftarrow>core_nodes mg. z ! n)"
proof -
  let ?N = "number_of_nodes mg"
  let ?z' = "elevation_after mg D dt z qs"
  let ?k = "D * dt / (dx mg * dx mg)"
  let ?S = "\<lambda>n. \<Sum>m\<leftarrow>active_neighbors mg n. z ! m - z ! n"
  define core where "core = (\<lambda>k. k < ?N \<and> status_at_node mg ! k = CORE)"
  define c where "c = number_of_node_columns mg"
  define F where "F = (\<lambda>s k. if core k \<and> core (k + s) then z ! (k + s) - z ! k else 0)"
  have F0: "F s n = 0" if "?N \<le> n + s" for s n using that by (simp add: F_def core_def)
  have "(\<Sum>n\<leftarrow>core_nodes mg. ?S n)
      = (\<Sum>n\<leftarrow>[0..<?N]. if status_at_node mg ! n = CORE then ?S n else 0)"
    by (simp add: core_nodes_def sum_list_map_filter')
  also have "\<dots> = (\<Sum>n = 0..<?N. if status_at_node mg ! n = CORE then ?S n else 0)"
    by (simp add: interv_sum_list_conv_sum_set_nat)
  also have "\<dots> = (\<Sum>n = 0..<?N. (F 1 n - (if n < 1 then 0 else F 1 (n - 1)))
                                  + (F c n - (if n < c then 0 else F c (n - c))))"
    by (rule sum.cong[OF refl])
       (simp only: F_def core_def c_def closed_grid_neighbor_sum[OF wf closed] atLeastLessThan_iff)
  also have "\<dots> = (\<Sum>n = 0..<?N. F 1 n - (if n < 1 then 0 else F 1 (n - 1)))
                 + (\<Sum>n = 0..<?N. F c n - (if n < c then 0 else F c (n - c)))"
    by (rule sum.distrib)
  also have "\<dots> = 0"
    by (simp only: shifted_sum_cancels[of ?N _ "F 1", OF F0] shifted_sum_cancels[of ?N _ "F c", OF F0])
  finally have S0: "(\<Sum>n\<leftarrow>core_nodes mg. ?S n) = 0" .
  define k where "k = D * dt / (dx mg * dx mg)"
  have "(\<Sum>n\<leftarrow>core_nodes mg. ?z' ! n) = (\<Sum>n\<leftarrow>core_nodes mg. z ! n + k * ?S n)"
    by (intro arg_cong[where f = sum_list] map_cong refl)
       (simp add: core_nodes_def elevation_after_core[OF wf q0] k_def)
  also have "\<dots> = (\<Sum>n\<leftarrow>core_nodes mg. z ! n) + k * (\<Sum>n\<leftarrow>core_nodes mg. ?S n)"
    by (simp only: sum_list_addf sum_list_const_mult)
  finally have "(\<Sum>n\<leftarrow>core_nodes mg. ?z' ! n) = (\<Sum>n\<leftarrow>core_nodes mg. z ! n)"
    by (simp add: S0)
  then show ?thesis by (simp add: diffusion_step_ok[OF z qs])
qed

theorem closed_boundaries_conserve_sum_witness:
  "wf_grid scenario_grid
   \<and> length ridge_z = number_of_nodes scenario_grid
   \<and> length scenario_qs = number_of_links scenario_grid
   \<and> zero_at_inactive_links scenario_grid scenario_qs
   \<and> all_boundaries_closed scenario_grid
   \<and> (\<Sum>n\<leftarrow>core_nodes scenario_grid. ridge_z ! n) = 46
   \<and> (\<exists>z' qs'. diffusion_step scenario_grid (1 / 10) 2 (ridge_z, scenario_qs) = Inr (z', qs')
          \<and> (\<Sum>n\<leftarrow>core_nodes scenario_grid. z' ! n) = 46)"
proof -
  have a: "wf_grid scenario_grid" by code_simp
  have b: "length ridge_z = number_of_nodes scenario_grid" by code_simp
  have c: "length scenario_qs = number_of_links scenario_grid" by code_simp
  have d: "zero_at_inactive_links scenario_grid scenario_qs" by code_simp
  have e: "all_boundaries_closed scenario_grid" by code_simp
  have f: "(\<Sum>n\<leftarrow>core_nodes scenario_grid. ridge_z ! n) = 46" by code_simp
  from closed_boundaries_conserve_sum[OF a b c d e, of "1 / 10" 2] a b c d e f
  show ?thesis by simp
qed

section \<open>The flux array\<close>

lemma add_zeros_link_zero_at_inactive: "zero_at_inactive_links mg (add_zeros_link mg)"
  by (simp add: zero_at_inactive_links_def add_zeros_link_def list_all_iff)

lemma flux_after_zero_at_inactive:
  assumes "zero_at_inactive_links mg qs"
  shows "zero_at_inactive_links mg (flux_after mg D z qs)"
  using assms by (auto simp: zero_at_inactive_links_def flux_after_def list_all_iff)





section \<open>Stability\<close>

lemma stable_step_bounded:
  assumes wf: "wf_grid mg" and q0: "zero_at_inactive_links mg qs"
    and D: "0 < D" and dt: "0 \<le> dt" "dt \<le> 0.2 * dx mg * dx mg / D"
    and bound: "\<forall>n < number_of_nodes mg. \<bar>z ! n\<bar> \<le> M"
    and n: "n < number_of_nodes mg"
  shows "\<bar>elevation_after mg D dt z qs ! n\<bar> \<le> M"
proof (cases "status_at_node mg ! n = CORE")
  case True
  let ?k = "D * dt / (dx mg * dx mg)"
  have h: "0 < dx mg" using wf by (simp add: wf_grid_def)
  note k = courant_number_bounds[OF h D dt]
  have cell: "node_has_cell mg n" using wf n True by (rule core_node_has_cell)
  have "\<bar>z ! m\<bar> \<le> M" if "m \<in> set (active_neighbors mg n)" for m
    using that active_neighbors_subset adjacent_nodes_in_range[OF cell] bound by blast
  then have nb: "- M \<le> z ! m" "z ! m \<le> M" if "m \<in> set (active_neighbors mg n)" for m
    using that by (fastforce simp: abs_le_iff)+
  have zn: "- M \<le> z ! n" "z ! n \<le> M" using bound n by (fastforce simp: abs_le_iff)+
  have "- M \<le> z ! n + ?k * (\<Sum>m\<leftarrow>active_neighbors mg n. z ! m - z ! n)"
    using k length_active_neighbors
    by (rule stencil_lower_bound) (use zn nb in auto)
  moreover have "z ! n + ?k * (\<Sum>m\<leftarrow>active_neighbors mg n. z ! m - z ! n) \<le> M"
    using k length_active_neighbors
    by (rule stencil_upper_bound) (use zn nb in auto)
  ultimately show ?thesis
    by (simp add: elevation_after_core[OF wf q0 n True] abs_le_iff)
next
  case False
  then show ?thesis using bound n by (simp add: elevation_after_not_core)
qed

lemma stable_loop_bounded:
  assumes wf: "wf_grid mg"
    and D: "0 < D" and dt: "0 \<le> dt" "dt \<le> 0.2 * dx mg * dx mg / D"
    and z: "length z = number_of_nodes mg" and qs: "length qs = number_of_links mg"
    and q0: "zero_at_inactive_links mg qs"
    and bound: "\<forall>n < number_of_nodes mg. \<bar>z ! n\<bar> \<le> M"
  shows "\<exists>zk qk. time_loop mg D dt k (z, qs) = Inr (zk, qk)
           \<and> (\<forall>n < number_of_nodes mg. \<bar>zk ! n\<bar> \<le> M)"
  using z qs q0 bound
proof (induction k arbitrary: z qs)
  case 0
  then show ?case by simp
next
  case (Suc k)
  have step: "diffusion_step mg D dt (z, qs)
      = Inr (elevation_after mg D dt z qs, flux_after mg D z qs)"
    using Suc.prems(1,2) by (rule diffusion_step_ok)
  have "\<forall>n < number_of_nodes mg. \<bar>elevation_after mg D dt z qs ! n\<bar> \<le> M"
    using stable_step_bounded[OF wf Suc.prems(3) D dt Suc.prems(4)] by blast
  from Suc.IH[OF length_elevation_after length_flux_after
      flux_after_zero_at_inactive[OF Suc.prems(3)] this]
  show ?case by (simp add: step bind_result_def)
qed

lemma flat_field_with_bump_bounded:
  "n < number_of_nodes mg \<Longrightarrow> \<bar>flat_field_with_bump mg p v ! n\<bar> \<le> \<bar>v\<bar>"
  by (cases "n = p") (simp_all add: flat_field_with_bump_def add_zeros_node_def)

section \<open>Instability\<close>

lemma scenario_step_symmetric:
  assumes q0: "zero_at_inactive_links scenario_grid qs"
  shows "elevation_after scenario_grid D dt (symmetric_field a b c) qs
       = symmetric_field (a + D * dt * (4 * (b - a)))
                         (b + D * dt * ((a - b) + 2 * (c - b)))
                         (c + D * dt * (2 * (b - c)))"
proof -
  let ?G = scenario_grid
  let ?Z = "symmetric_field a b c"
  let ?e = "elevation_after ?G D dt ?Z qs"
  have wf: "wf_grid ?G" by code_simp
  have N: "number_of_nodes ?G = 25" by code_simp
  have h: "dx ?G = 1" by code_simp
  have upt: "[0..<25] = [0, 1, 2, 3, 4, 5, 6, 7, 8, 9, 10, 11, 12, 13, 14, 15, 16, 17, 18, 19,
                         20, 21, 22, 23, 24 :: nat]" by code_simp
  have core: "?e ! n = ?Z ! n + D * dt * (\<Sum>m\<leftarrow>active_neighbors ?G n. ?Z ! m - ?Z ! n)"
    if "n < 25" "status_at_node ?G ! n = CORE" for n
    using elevation_after_core[OF wf q0, of n D dt ?Z] that by (simp add: N h)
  have edge: "?e ! n = ?Z ! n" if "n < 25" "status_at_node ?G ! n \<noteq> CORE" for n
    using that by (simp add: elevation_after_not_core N)
  have s0: "status_at_node ?G ! 0 \<noteq> CORE" by code_simp
  have e0: "?e ! 0 = 0"
    using edge[OF _ s0] by (simp add: symmetric_field_def)
  have s1: "status_at_node ?G ! 1 \<noteq> CORE" by code_simp
  have e1: "?e ! 1 = 0"
    using edge[OF _ s1] by (simp add: symmetric_field_def)
  have s2: "status_at_node ?G ! 2 \<noteq> CORE" by code_simp
  have e2: "?e ! 2 = 0"
    using edge[OF _ s2] by (simp add: symmetric_field_def)
  have s3: "status_at_node ?G ! 3 \<noteq> CORE" by code_simp
  have e3: "?e ! 3 = 0"
    using edge[OF _ s3] by (simp add: symmetric_field_def)
  have s4: "status_at_node ?G ! 4 \<noteq> CORE" by code_simp
  have e4: "?e ! 4 = 0"
    using edge[OF _ s4] by (simp add: symmetric_field_def)
  have s5: "status_at_node ?G ! 5 \<noteq> CORE" by code_simp
  have e5: "?e ! 5 = 0"
    using edge[OF _ s5] by (simp add: symmetric_field_def)
  have s6: "status_at_node ?G ! 6 = CORE" by code_simp
  have n6: "active_neighbors ?G 6 = [7, 11]" by code_simp
  have e6: "?e ! 6 = (c + D * dt * (2 * (b - c)))"
    using core[OF _ s6] by (simp add: n6 symmetric_field_def algebra_simps)
  have s7: "status_at_node ?G ! 7 = CORE" by code_simp
  have n7: "active_neighbors ?G 7 = [8, 12, 6]" by code_simp
  have e7: "?e ! 7 = (b + D * dt * ((a - b) + 2 * (c - b)))"
    using core[OF _ s7] by (simp add: n7 symmetric_field_def algebra_simps)
  have s8: "status_at_node ?G ! 8 = CORE" by code_simp
  have n8: "active_neighbors ?G 8 = [13, 7]" by code_simp
  have e8: "?e ! 8 = (c + D * dt * (2 * (b - c)))"
    using core[OF _ s8] by (simp add: n8 symmetric_field_def algebra_simps)
  have s9: "status_at_node ?G ! 9 \<noteq> CORE" by code_simp
  have e9: "?e ! 9 = 0"
    using edge[OF _ s9] by (simp add: symmetric_field_def)
  have s10: "status_at_node ?G ! 10 \<noteq> CORE" by code_simp
  have e10: "?e ! 10 = 0"
    using edge[OF _ s10] by (simp add: symmetric_field_def)
  have s11: "status_at_node ?G ! 11 = CORE" by code_simp
  have n11: "active_neighbors ?G 11 = [12, 16, 6]" by code_simp
  have e11: "?e ! 11 = (b + D * dt * ((a - b) + 2 * (c - b)))"
    using core[OF _ s11] by (simp add: n11 symmetric_field_def algebra_simps)
  have s12: "status_at_node ?G ! 12 = CORE" by code_simp
  have n12: "active_neighbors ?G 12 = [13, 17, 11, 7]" by code_simp
  have e12: "?e ! 12 = (a + D * dt * (4 * (b - a)))"
    using core[OF _ s12] by (simp add: n12 symmetric_field_def algebra_simps)
  have s13: "status_at_node ?G ! 13 = CORE" by code_simp
  have n13: "active_neighbors ?G 13 = [18, 12, 8]" by code_simp
  have e13: "?e ! 13 = (b + D * dt * ((a - b) + 2 * (c - b)))"
    using core[OF _ s13] by (simp add: n13 symmetric_field_def algebra_simps)
  have s14: "status_at_node ?G ! 14 \<noteq> CORE" by code_simp
  have e14: "?e ! 14 = 0"
    using edge[OF _ s14] by (simp add: symmetric_field_def)
  have s15: "status_at_node ?G ! 15 \<noteq> CORE" by code_simp
  have e15: "?e ! 15 = 0"
    using edge[OF _ s15] by (simp add: symmetric_field_def)
  have s16: "status_at_node ?G ! 16 = CORE" by code_simp
  have n16: "active_neighbors ?G 16 = [17, 11]" by code_simp
  have e16: "?e ! 16 = (c + D * dt * (2 * (b - c)))"
    using core[OF _ s16] by (simp add: n16 symmetric_field_def algebra_simps)
  have s17: "status_at_node ?G ! 17 = CORE" by code_simp
  have n17: "active_neighbors ?G 17 = [18, 16, 12]" by code_simp
  have e17: "?e ! 17 = (b + D * dt * ((a - b) + 2 * (c - b)))"
    using core[OF _ s17] by (simp add: n17 symmetric_field_def algebra_simps)
  have s18: "status_at_node ?G ! 18 = CORE" by code_simp
  have n18: "active_neighbors ?G 18 = [17, 13]" by code_simp
  have e18: "?e ! 18 = (c + D * dt * (2 * (b - c)))"
    using core[OF _ s18] by (simp add: n18 symmetric_field_def algebra_simps)
  have s19: "status_at_node ?G ! 19 \<noteq> CORE" by code_simp
  have e19: "?e ! 19 = 0"
    using edge[OF _ s19] by (simp add: symmetric_field_def)
  have s20: "status_at_node ?G ! 20 \<noteq> CORE" by code_simp
  have e20: "?e ! 20 = 0"
    using edge[OF _ s20] by (simp add: symmetric_field_def)
  have s21: "status_at_node ?G ! 21 \<noteq> CORE" by code_simp
  have e21: "?e ! 21 = 0"
    using edge[OF _ s21] by (simp add: symmetric_field_def)
  have s22: "status_at_node ?G ! 22 \<noteq> CORE" by code_simp
  have e22: "?e ! 22 = 0"
    using edge[OF _ s22] by (simp add: symmetric_field_def)
  have s23: "status_at_node ?G ! 23 \<noteq> CORE" by code_simp
  have e23: "?e ! 23 = 0"
    using edge[OF _ s23] by (simp add: symmetric_field_def)
  have s24: "status_at_node ?G ! 24 \<noteq> CORE" by code_simp
  have e24: "?e ! 24 = 0"
    using edge[OF _ s24] by (simp add: symmetric_field_def)
  have "?e = map (\<lambda>n. ?e ! n) [0..<25]"
    using map_nth[of ?e] by (simp add: length_elevation_after N)
  also have "\<dots> =
      [0, 0, 0, 0, 0,
       0, (c + D * dt * (2 * (b - c))), (b + D * dt * ((a - b) + 2 * (c - b))), (c + D * dt * (2 * (b - c))), 0,
       0, (b + D * dt * ((a - b) + 2 * (c - b))), (a + D * dt * (4 * (b - a))), (b + D * dt * ((a - b) + 2 * (c - b))), 0,
       0, (c + D * dt * (2 * (b - c))), (b + D * dt * ((a - b) + 2 * (c - b))), (c + D * dt * (2 * (b - c))), 0,
       0, 0, 0, 0, 0]"
    by (simp only: upt list.map e0 e1 e2 e3 e4 e5 e6 e7 e8 e9 e10 e11 e12 e13 e14 e15 e16 e17 e18 e19 e20 e21 e22 e23 e24)
  also have "\<dots> = symmetric_field (a + D * dt * (4 * (b - a)))
                         (b + D * dt * ((a - b) + 2 * (c - b)))
                         (c + D * dt * (2 * (b - c)))"
    by (simp only: symmetric_field_def)
  finally show ?thesis .
qed

lemma unstable_loop_grows:
  fixes s :: real
  assumes D: "0 < D"
    and qs: "length qs = number_of_links scenario_grid"
    and q0: "zero_at_inactive_links scenario_grid qs"
    and s: "s = 1 \<or> s = - 1"
    and inv: "0 \<le> A" "A \<le> s * a" "s * b \<le> 0" "0 \<le> s * c"
  shows "\<exists>a' b' c' qk.
           time_loop scenario_grid D (5 * (0.2 * dx scenario_grid * dx scenario_grid / D)) k
             (symmetric_field a b c, qs) = Inr (symmetric_field a' b' c', qk)
           \<and> A * 3 ^ k \<le> (- 1) ^ k * s * a'"
  using qs q0 s inv
proof (induction k arbitrary: a b c s qs A)
  case 0
  then show ?case by auto
next
  case (Suc k)
  let ?G = scenario_grid
  let ?dt = "5 * (0.2 * dx ?G * dx ?G / D)"
  have h: "dx ?G = 1" by code_simp
  have N: "number_of_nodes ?G = 25" by code_simp
  have Ddt: "D * ?dt = 1" using D by (simp add: h)
  have z: "length (symmetric_field a b c) = number_of_nodes ?G"
    by (simp add: symmetric_field_def N)
  define a1 where "a1 = a + 1 * (4 * (b - a))"
  define b1 where "b1 = b + 1 * ((a - b) + 2 * (c - b))"
  define c1 where "c1 = c + 1 * (2 * (b - c))"
  have "elevation_after ?G D ?dt (symmetric_field a b c) qs = symmetric_field a1 b1 c1"
    unfolding scenario_step_symmetric[OF Suc.prems(2)] Ddt[unfolded mult.assoc[symmetric]]
      a1_def b1_def c1_def
    using Ddt by (simp only: mult.assoc[symmetric])
  then have step: "diffusion_step ?G D ?dt (symmetric_field a b c, qs)
      = Inr (symmetric_field a1 b1 c1, flux_after ?G D (symmetric_field a b c) qs)"
    by (simp add: diffusion_step_ok[OF z Suc.prems(1)])
  have s': "- s = 1 \<or> - s = - 1" using Suc.prems(3) by auto
  have inv': "0 \<le> 3 * A" "3 * A \<le> (- s) * a1" "(- s) * b1 \<le> 0" "0 \<le> (- s) * c1"
    using Suc.prems(4,5,6,7) by (simp_all add: a1_def b1_def c1_def algebra_simps)
  from Suc.IH[OF length_flux_after flux_after_zero_at_inactive[OF Suc.prems(2)] s' inv']
  obtain a' b' c' qk where r:
      "time_loop ?G D ?dt k (symmetric_field a1 b1 c1, flux_after ?G D (symmetric_field a b c) qs)
         = Inr (symmetric_field a' b' c', qk)"
      "3 * A * 3 ^ k \<le> (- 1) ^ k * (- s) * a'"
    by blast
  have "time_loop ?G D ?dt (Suc k) (symmetric_field a b c, qs) = Inr (symmetric_field a' b' c', qk)"
    by (simp only: time_loop.simps step bind_result_def sum.case r(1))
  moreover have "A * 3 ^ Suc k \<le> (- 1) ^ Suc k * s * a'" using r(2) by (simp add: algebra_simps)
  ultimately show ?case by blast
qed

lemma scenario_bump_is_symmetric:
  "flat_field_with_bump scenario_grid 12 v = symmetric_field v 0 0"
proof -
  have "add_zeros_node scenario_grid = symmetric_field 0 0 0" by code_simp
  then show ?thesis by (simp add: flat_field_with_bump_def symmetric_field_def)
qed

text \<open>
  C5, as the code has it. Take a flat field of zeros with the single node \<open>p\<close> set to
  \<open>v\<close>, a positive diffusivity and a fresh flux array. With the time step
  \<open>0.2 * dx * dx / D\<close> no elevation ever exceeds \<open>\<bar>v\<bar>\<close> in absolute value, on any grid
  and after any number \<open>k\<close> of passes, 50 among them. With five times that time step, on
  the scenario grid with the centre node raised, the elevation of the centre node is at
  least \<open>\<bar>v\<bar> * 3 ^ k\<close> in absolute value after \<open>k\<close> passes: it grows beyond every bound.
\<close>

theorem stability_boundary:
  assumes wf: "wf_grid mg" and D: "0 < D"
  shows "(\<exists>zk qk. time_loop mg D (0.2 * dx mg * dx mg / D) k
                     (flat_field_with_bump mg p v, add_zeros_link mg) = Inr (zk, qk)
            \<and> (\<forall>n < number_of_nodes mg. \<bar>zk ! n\<bar> \<le> \<bar>v\<bar>))
       \<and> (\<exists>zk qk. time_loop scenario_grid D
                     (5 * (0.2 * dx scenario_grid * dx scenario_grid / D)) k
                     (flat_field_with_bump scenario_grid 12 v, add_zeros_link scenario_grid)
                   = Inr (zk, qk)
            \<and> \<bar>v\<bar> * 3 ^ k \<le> \<bar>zk ! 12\<bar>)"
proof -
  have h: "0 < dx mg" using wf by (simp add: wf_grid_def)
  have dt: "0 \<le> 0.2 * dx mg * dx mg / D" using h D by simp
  have stable: "\<exists>zk qk. time_loop mg D (0.2 * dx mg * dx mg / D) k
                     (flat_field_with_bump mg p v, add_zeros_link mg) = Inr (zk, qk)
            \<and> (\<forall>n < number_of_nodes mg. \<bar>zk ! n\<bar> \<le> \<bar>v\<bar>)"
    using wf D dt order_refl
  proof (rule stable_loop_bounded)
    show "length (flat_field_with_bump mg p v) = number_of_nodes mg"
      by (simp add: flat_field_with_bump_def add_zeros_node_def)
    show "length (add_zeros_link mg) = number_of_links mg" by (simp add: add_zeros_link_def)
    show "zero_at_inactive_links mg (add_zeros_link mg)" by (rule add_zeros_link_zero_at_inactive)
    show "\<forall>n < number_of_nodes mg. \<bar>flat_field_with_bump mg p v ! n\<bar> \<le> \<bar>v\<bar>"
      by (simp add: flat_field_with_bump_bounded)
  qed
  define s :: real where "s = (if 0 \<le> v then 1 else - 1)"
  have s: "s = 1 \<or> s = - 1" "\<bar>v\<bar> \<le> s * v" "\<bar>s\<bar> = 1" by (simp_all add: s_def)
  have "length (add_zeros_link scenario_grid) = number_of_links scenario_grid"
    by (simp add: add_zeros_link_def)
  from unstable_loop_grows[OF D this add_zeros_link_zero_at_inactive s(1) _ s(2), of 0 0 k]
  obtain a' b' c' qk where r:
      "time_loop scenario_grid D (5 * (0.2 * dx scenario_grid * dx scenario_grid / D)) k
         (symmetric_field v 0 0, add_zeros_link scenario_grid) = Inr (symmetric_field a' b' c', qk)"
      "\<bar>v\<bar> * 3 ^ k \<le> (- 1) ^ k * s * a'"
    by auto
  have "(- 1) ^ k * s * a' \<le> \<bar>(- 1) ^ k * s * a'\<bar>" by (rule abs_ge_self)
  also have "\<dots> = \<bar>a'\<bar>" by (simp add: abs_mult s(3) power_abs)
  finally have "\<bar>v\<bar> * 3 ^ k \<le> \<bar>symmetric_field a' b' c' ! 12\<bar>"
    using r(2) by (simp add: symmetric_field_def)
  with r(1) have unstable: "\<exists>zk qk. time_loop scenario_grid D
                     (5 * (0.2 * dx scenario_grid * dx scenario_grid / D)) k
                     (flat_field_with_bump scenario_grid 12 v, add_zeros_link scenario_grid)
                   = Inr (zk, qk)
            \<and> \<bar>v\<bar> * 3 ^ k \<le> \<bar>zk ! 12\<bar>"
    unfolding scenario_bump_is_symmetric by blast
  from stable unstable show ?thesis by blast
qed

lemma two_core_nodes_swap:
  fixes k :: nat
  defines "g \<equiv> closed_grid_3x4"
  defines "s5 \<equiv> ([0, 0, 0, 0, 0, 10, 0, 0, 0, 0, 0, 0 :: real],
                  [0, 0, 0, 0, 0, 0, 0, 0, - 1, 0, 0, 0, 0, 0, 0, 0, 0 :: real])"
  defines "s6 \<equiv> ([0, 0, 0, 0, 0, 0, 10, 0, 0, 0, 0, 0 :: real],
                  [0, 0, 0, 0, 0, 0, 0, 0, 1, 0, 0, 0, 0, 0, 0, 0, 0 :: real])"
  shows "time_loop g (1 / 10) 10 k s5 = Inr (if even k then s5 else s6)
       \<and> time_loop g (1 / 10) 10 k s6 = Inr (if even k then s6 else s5)"
proof (induction k)
  case 0
  show ?case by simp
next
  case (Suc k)
  have 5: "diffusion_step g (1 / 10) 10 s5 = Inr s6"
    unfolding g_def s5_def s6_def by code_simp
  have 6: "diffusion_step g (1 / 10) 10 s6 = Inr s5"
    unfolding g_def s5_def s6_def by code_simp
  show ?case using Suc by (simp add: 5 6 bind_result_def)
qed

text \<open>
  C5, as the claim states it, names no grid, and with five times the stable time step
  the bump need not grow. On the 3 x 4 grid with closed edges the two core nodes 5 and 6
  share one active link; with node 5 raised to 10, diffusivity 0.1 and the time step
  \<open>5 * (0.2 * 1 * 1 / 0.1) = 10\<close> every pass moves the whole bump to the other node, so
  after 49 passes it stands at node 6 and after 50 passes at node 5 again, still 10 high.
\<close>

theorem bump_swaps_between_two_core_nodes:
  "status_at_node closed_grid_3x4
     = [CLOSED_BOUNDARY, CLOSED_BOUNDARY, CLOSED_BOUNDARY, CLOSED_BOUNDARY,
        CLOSED_BOUNDARY, CORE, CORE, CLOSED_BOUNDARY,
        CLOSED_BOUNDARY, CLOSED_BOUNDARY, CLOSED_BOUNDARY, CLOSED_BOUNDARY]
   \<and> flat_field_with_bump closed_grid_3x4 5 10 = [0, 0, 0, 0, 0, 10, 0, 0, 0, 0, 0, 0]
   \<and> (0 :: real) < 1 / 10
   \<and> 5 * (0.2 * dx closed_grid_3x4 * dx closed_grid_3x4 / (1 / 10)) = 10
   \<and> time_loop closed_grid_3x4 (1 / 10) 10 49
         (flat_field_with_bump closed_grid_3x4 5 10, add_zeros_link closed_grid_3x4)
       = Inr ([0, 0, 0, 0, 0, 0, 10, 0, 0, 0, 0, 0],
              [0, 0, 0, 0, 0, 0, 0, 0, 1, 0, 0, 0, 0, 0, 0, 0, 0])
   \<and> time_loop closed_grid_3x4 (1 / 10) 10 50
         (flat_field_with_bump closed_grid_3x4 5 10, add_zeros_link closed_grid_3x4)
       = Inr ([0, 0, 0, 0, 0, 10, 0, 0, 0, 0, 0, 0],
              [0, 0, 0, 0, 0, 0, 0, 0, - 1, 0, 0, 0, 0, 0, 0, 0, 0])"
proof -
  let ?s0 = "(flat_field_with_bump closed_grid_3x4 5 10, add_zeros_link closed_grid_3x4)"
  let ?s6 = "([0, 0, 0, 0, 0, 0, 10, 0, 0, 0, 0, 0 :: real],
              [0, 0, 0, 0, 0, 0, 0, 0, 1, 0, 0, 0, 0, 0, 0, 0, 0 :: real])"
  have a: "status_at_node closed_grid_3x4
     = [CLOSED_BOUNDARY, CLOSED_BOUNDARY, CLOSED_BOUNDARY, CLOSED_BOUNDARY,
        CLOSED_BOUNDARY, CORE, CORE, CLOSED_BOUNDARY,
        CLOSED_BOUNDARY, CLOSED_BOUNDARY, CLOSED_BOUNDARY, CLOSED_BOUNDARY]" by code_simp
  have b: "flat_field_with_bump closed_grid_3x4 5 10 = [0, 0, 0, 0, 0, 10, 0, 0, 0, 0, 0, 0]"
    by code_simp
  have c: "5 * (0.2 * dx closed_grid_3x4 * dx closed_grid_3x4 / (1 / 10)) = 10" by code_simp
  have first: "diffusion_step closed_grid_3x4 (1 / 10) 10 ?s0 = Inr ?s6" by code_simp
  have loop: "time_loop closed_grid_3x4 (1 / 10) 10 (Suc k) ?s0
                = time_loop closed_grid_3x4 (1 / 10) 10 k ?s6" for k
    by (simp add: first bind_result_def)
  have "time_loop closed_grid_3x4 (1 / 10) 10 (Suc 48) ?s0 = Inr ?s6"
    unfolding loop using two_core_nodes_swap[of 48] by simp
  moreover have "time_loop closed_grid_3x4 (1 / 10) 10 (Suc 49) ?s0
      = Inr ([0, 0, 0, 0, 0, 10, 0, 0, 0, 0, 0, 0],
             [0, 0, 0, 0, 0, 0, 0, 0, - 1, 0, 0, 0, 0, 0, 0, 0, 0])"
    unfolding loop using two_core_nodes_swap[of 49] by simp
  ultimately show ?thesis using a b c by simp
qed

theorem stability_boundary_witness:
  "wf_grid scenario_grid \<and> (0 :: real) < 1 / 10
   \<and> 0.2 * dx scenario_grid * dx scenario_grid / (1 / 10) = 2
   \<and> 5 * (0.2 * dx scenario_grid * dx scenario_grid / (1 / 10)) = 10
   \<and> (\<exists>zk qk. time_loop scenario_grid (1 / 10) 2 50
                  (flat_field_with_bump scenario_grid 12 10, add_zeros_link scenario_grid)
                = Inr (zk, qk) \<and> \<bar>zk ! 12\<bar> \<le> 10 \<and> \<bar>zk ! 7\<bar> \<le> 10)
   \<and> (\<exists>zk qk. time_loop scenario_grid (1 / 10) 10 50
                  (flat_field_with_bump scenario_grid 12 10, add_zeros_link scenario_grid)
                = Inr (zk, qk) \<and> 10 * 3 ^ 50 \<le> \<bar>zk ! 12\<bar>)"
proof -
  have a: "wf_grid scenario_grid" by code_simp
  have b: "(0 :: real) < 1 / 10" by simp
  have c: "0.2 * dx scenario_grid * dx scenario_grid / (1 / 10) = 2"
    "5 * (0.2 * dx scenario_grid * dx scenario_grid / (1 / 10)) = 10" by code_simp+
  have n: "12 < number_of_nodes scenario_grid" "7 < number_of_nodes scenario_grid" by code_simp+
  from stability_boundary[OF a b, of 50 12 10, unfolded c] n
  have "(\<exists>zk qk. time_loop scenario_grid (1 / 10) 2 50
                  (flat_field_with_bump scenario_grid 12 10, add_zeros_link scenario_grid)
                = Inr (zk, qk) \<and> \<bar>zk ! 12\<bar> \<le> 10 \<and> \<bar>zk ! 7\<bar> \<le> 10)
   \<and> (\<exists>zk qk. time_loop scenario_grid (1 / 10) 10 50
                  (flat_field_with_bump scenario_grid 12 10, add_zeros_link scenario_grid)
                = Inr (zk, qk) \<and> 10 * 3 ^ 50 \<le> \<bar>zk ! 12\<bar>)"
    by (auto simp: abs_le_iff)
  with a b c show ?thesis by blast
qed

section \<open>The grids that the notebooks build\<close>

lemma wf_raster_model_grid:
  assumes "0 < spacing"
  shows "wf_grid (raster_model_grid rc spacing)"
  using assms
  by (simp add: wf_grid_def raster_model_grid_def Let_def number_of_nodes_def
      number_of_node_rows_def number_of_node_columns_def node_has_cell_def list_all_iff)

lemma wf_set_closed_boundaries_at_grid_edges:
  assumes "wf_grid mg"
  shows "wf_grid (set_closed_boundaries_at_grid_edges mg e n w s)"
  using assms
  by (auto simp: wf_grid_def set_closed_boundaries_at_grid_edges_def Let_def number_of_nodes_def
      number_of_node_rows_def number_of_node_columns_def node_has_cell_def list_all_iff)

text \<open>
  The notebook's grid has 1000 nodes, and its time step for the diffusivity 0.01 is 2000.
\<close>

lemma fault_scarp_grid_counts:
  "number_of_nodes fault_scarp_grid = 1000"
  "0.2 * dx fault_scarp_grid * dx fault_scarp_grid / 0.01 = 2000"
  by (simp_all add: fault_scarp_grid_def set_closed_boundaries_at_grid_edges_def
      raster_model_grid_def Let_def number_of_nodes_def number_of_node_rows_def
      number_of_node_columns_def)

lemma wf_fault_scarp_grid: "wf_grid fault_scarp_grid"
  unfolding fault_scarp_grid_def
  by (intro wf_set_closed_boundaries_at_grid_edges wf_raster_model_grid) simp

lemma wf_scenario_grid: "wf_grid scenario_grid"
  unfolding scenario_grid_def
  by (intro wf_set_closed_boundaries_at_grid_edges wf_raster_model_grid) simp

text \<open>
  Whichever edges are closed, the core nodes of a freshly built grid are the nodes off
  the perimeter.
\<close>

lemma core_nodes_after_closing_edges:
  "core_nodes (set_closed_boundaries_at_grid_edges (raster_model_grid (r, c) spacing) e n w s)
     = filter (\<lambda>k. 0 < k div c \<and> k div c + 1 < r \<and> 0 < k mod c \<and> k mod c + 1 < c) [0..<r * c]"
  unfolding core_nodes_def
  by (rule filter_cong)
     (auto simp: set_closed_boundaries_at_grid_edges_def raster_model_grid_def Let_def
        number_of_nodes_def number_of_node_rows_def number_of_node_columns_def node_has_cell_def)

section \<open>The library's own example\<close>

text \<open>
  The example that the library's documentation gives for \<^verbatim>\<open>calc_flux_div_at_node\<close>: a
  3 x 4 grid of spacing 10 with the elevations 50 and 36 at the two core nodes. The model
  returns the documented gradients and the documented divergences 1.64 and 0.94, and
  1.14 and 0.22 once the right and the top edge are closed and only the active links
  carry flux.
\<close>

lemma library_example_of_flux_divergence:
  "calc_grad_at_link (raster_model_grid (3, 4) 10) [0, 0, 0, 0, 0, 50, 36, 0, 0, 0, 0, 0]
     = Inr [0, 0, 0, 0, 5, 3.6, 0, 5, - 1.4, - 3.6, 0, - 5, - 3.6, 0, 0, 0, 0]"
  "calc_flux_div_at_node (raster_model_grid (3, 4) 10)
       (map uminus [0, 0, 0, 0, 5, 3.6, 0, 5, - 1.4, - 3.6, 0, - 5, - 3.6, 0, 0, 0, 0])
     = Inr [0, 0, 0, 0, 0, 1.64, 0.94, 0, 0, 0, 0, 0]"
  "diffusion_step
       (set_closed_boundaries_at_grid_edges (raster_model_grid (3, 4) 10) True True False False)
       1 0 ([0, 0, 0, 0, 0, 50, 36, 0, 0, 0, 0, 0], replicate 17 0)
     = Inr ([0, 0, 0, 0, 0, 50, 36, 0, 0, 0, 0, 0],
            [0, 0, 0, 0, - 5, - 3.6, 0, - 5, 1.4, 0, 0, 0, 0, 0, 0, 0, 0])"
  "calc_flux_div_at_node
       (set_closed_boundaries_at_grid_edges (raster_model_grid (3, 4) 10) True True False False)
       [0, 0, 0, 0, - 5, - 3.6, 0, - 5, 1.4, 0, 0, 0, 0, 0, 0, 0, 0]
     = Inr [0, 0, 0, 0, 0, 1.14, 0.22, 0, 0, 0, 0, 0]"
  by code_simp+

end
